theory Spec2Isabelle
  imports Main
begin

section \<open>Data model of \<open>src/platform.ts\<close>\<close>

text \<open>
  The platform class \<open>HomebridgeMagichomeDynamicPlatform\<close> keeps a list of accessories
  restored from the Homebridge cache, scans the network for devices, reconciles the two
  and finally sweeps the list for accessories to prune.  Everything outside the file
  (discovery, transport, the Homebridge registry, the uuid generator) is a collaborator:
  its answers are fields of an environment record, its calls are entries of an effect
  trace.

  Strings are byte lists.  A JavaScript exception is a value of \<open>js_error\<close>.
\<close>

datatype js_error = TypeError | CollaboratorError string

text \<open>
  Values a configuration key can hold.  \<open>JUndefined\<close> is an absent key.
\<close>

datatype jsval =
    JUndefined
  | JNull
  | JBool bool
  | JNum int
  | JStr string
  | JArr "jsval list"

record device =
  uniqueId :: string
  ipAddress :: string
  modelNumber :: string
  initialState :: "nat list option"

record deviceType =
  convenientName :: string

record transportState =
  debugBuffer :: "nat list"

text \<open>
  A \<open>PlatformAccessory\<close> with the fields of \<open>accessory.context\<close> that the file reads or
  writes.  The counter \<open>restartsSinceSeen\<close> is only ever set to 0 or incremented.
\<close>

record accessory =
  UUID :: string
  displayName :: string
  deviceType :: deviceType
  device :: device
  cachedIPAddress :: string
  restartsSinceSeen :: nat

record deviceManagement_config =
  blacklistedUniqueIDs :: jsval
  blacklistOrWhitelist :: jsval

record pruning_config =
  pruneMissingCachedAccessories :: bool
  pruneAllAccessoriesNextRestart :: bool
  restartsBeforeMissingAccessoriesPruned :: int

text \<open>
  \<open>this.config\<close>: either section may be missing from the user's configuration, in which
  case reading a property of it throws a \<open>TypeError\<close>.
\<close>

record config =
  deviceManagement :: "deviceManagement_config option"
  pruning :: "pruning_config option"

datatype message =
    FinishedInitializing
  | ExecutedDidFinishLaunching
  | LoadingFromCache string
  | ScanningBroadcastAddress
  | ScanFoundZero nat
  | FoundZeroDevices
  | FoundDevices nat
  | NewDeviceNotAllowed string
  | RegisteringNew string string string
  | IpDiscrepancy string
  | ExpectedIp string
  | DiscoveredIp string
  | IpReassigned string
  | WillBePruned string string
  | RegisteringCached string string string
  | PrunedMarkedForDeletion string
  | PrunedNotSeen string nat
  | ContinuingUnseen string nat string string
  | Summary int int int int

datatype effect =
    RegisterPlatformAccessories accessory
  | UpdatePlatformAccessories accessory
  | UnregisterPlatformAccessories accessory
  | LogDebug message
  | LogDebugError js_error
  | LogInfo message
  | LogWarn message
  | LogError js_error

text \<open>
  The collaborators.  \<open>scan n\<close> is the outcome of the \<open>n\<close>-th call (from 0) of
  \<open>discover.scan\<close>; \<open>getState\<close> is asked by ip address, as \<open>new Transport(ip, config)\<close> is.
  The \<open>RGBStrip\<close> constructor and the three registry calls are taken to return normally
  and to leave the modelled fields alone.
\<close>

record env =
  uuidGenerate :: "string \<Rightarrow> string"
  scan :: "nat \<Rightarrow> js_error + device list"
  createAccessory :: "device \<Rightarrow> js_error + deviceType"
  getState :: "string \<Rightarrow> js_error + transportState"

text \<open>
  The platform object (\<open>accessories\<close>), the trace of registry calls and log lines
  (\<open>effects\<close>), the number of \<open>discover.scan\<close> calls made so far, and the three counters
  local to \<open>discoverDevices\<close>.
\<close>

record run_state =
  accessories :: "accessory list"
  effects :: "effect list"
  scanCalls :: nat
  registeredDevices :: int
  newDevices :: int
  unseenDevices :: int

definition emit :: "effect list \<Rightarrow> run_state \<Rightarrow> run_state" where
  "emit es st = st\<lparr>effects := effects st @ es\<rparr>"

definition initialPlatform :: run_state where
  "initialPlatform =
     \<lparr>accessories = [], effects = [], scanCalls = 0,
      registeredDevices = 0, newDevices = 0, unseenDevices = 0\<rparr>"

section \<open>String helpers\<close>

primrec startsWith :: "'a list \<Rightarrow> 'a list \<Rightarrow> bool" where
  "startsWith s [] = True"
| "startsWith s (c # t) = (case s of [] \<Rightarrow> False | d # s' \<Rightarrow> d = c \<and> startsWith s' t)"

text \<open>\<open>String.prototype.includes\<close>: \<open>t\<close> occurs in \<open>s\<close> as a contiguous run.\<close>

fun includesStr :: "'a list \<Rightarrow> 'a list \<Rightarrow> bool" where
  "includesStr [] t = (t = [])"
| "includesStr (c # s) t = (startsWith (c # s) t \<or> includesStr s t)"

text \<open>\<open>toLowerCase\<close> on the ASCII letters; every other byte is kept.\<close>

definition toLowerChar :: "char \<Rightarrow> char" where
  "toLowerChar c =
     (case map_of (zip ''ABCDEFGHIJKLMNOPQRSTUVWXYZ'' ''abcdefghijklmnopqrstuvwxyz'') c of
        None \<Rightarrow> c
      | Some l \<Rightarrow> l)"

definition toLowerCase :: "string \<Rightarrow> string" where
  "toLowerCase s = map toLowerChar s"

text \<open>
  \<open>x.includes(t)\<close> for a string argument \<open>t\<close>: substring search on a string, strict
  membership on an array, and a \<open>TypeError\<close> on every value without that method.
\<close>

fun js_includes :: "jsval \<Rightarrow> string \<Rightarrow> js_error + bool" where
  "js_includes (JStr s) t = Inr (includesStr s t)"
| "js_includes (JArr xs) t = Inr (JStr t \<in> set xs)"
| "js_includes JUndefined t = Inl TypeError"
| "js_includes JNull t = Inl TypeError"
| "js_includes (JBool b) t = Inl TypeError"
| "js_includes (JNum n) t = Inl TypeError"

text \<open>\<open>Array.prototype.find\<close>, as the position of the first element that satisfies \<open>p\<close>.\<close>

fun findIndex :: "('a \<Rightarrow> bool) \<Rightarrow> 'a list \<Rightarrow> nat option" where
  "findIndex p [] = None"
| "findIndex p (x # xs) =
     (if p x then Some 0 else map_option Suc (findIndex p xs))"

section \<open>\<open>isAllowed\<close>\<close>

text \<open>
  The body of the \<open>try\<close> block: \<open>Inr True\<close> when the assignment \<open>isAllowed = false\<close> is
  reached, \<open>Inr False\<close> when the block ends without it, \<open>Inl e\<close> when it throws.
  \<open>&&\<close> and \<open>||\<close> evaluate their right operand only when needed.
\<close>

definition isAllowedTry :: "config \<Rightarrow> string \<Rightarrow> js_error + bool" where
  "isAllowedTry cfg uid =
     (case deviceManagement cfg of
        None \<Rightarrow> Inl TypeError
      | Some dm \<Rightarrow>
          if blacklistedUniqueIDs dm \<noteq> JUndefined \<and> blacklistOrWhitelist dm \<noteq> JUndefined
          then
            (case js_includes (blacklistedUniqueIDs dm) uid of
               Inl e \<Rightarrow> Inl e
             | Inr listed \<Rightarrow>
                 (case (if listed then js_includes (blacklistOrWhitelist dm) ''blacklist''
                        else Inr False) of
                    Inl e \<Rightarrow> Inl e
                  | Inr True \<Rightarrow> Inr True
                  | Inr False \<Rightarrow>
                      (case js_includes (blacklistedUniqueIDs dm) uid of
                         Inl e \<Rightarrow> Inl e
                       | Inr listed' \<Rightarrow>
                           if \<not> listed'
                           then js_includes (blacklistOrWhitelist dm) ''whitelist''
                           else Inr False)))
          else Inr False)"

definition isAllowed :: "config \<Rightarrow> string \<Rightarrow> bool" where
  "isAllowed cfg uid =
     (case isAllowedTry cfg uid of Inl e \<Rightarrow> True | Inr denied \<Rightarrow> \<not> denied)"

text \<open>What \<open>isAllowed\<close> writes to the log: the caught error, at debug level.\<close>

definition isAllowedLog :: "config \<Rightarrow> string \<Rightarrow> effect list" where
  "isAllowedLog cfg uid =
     (case isAllowedTry cfg uid of Inl e \<Rightarrow> [LogDebugError e] | Inr denied \<Rightarrow> [])"

section \<open>\<open>configureAccessory\<close>\<close>

definition configureAccessory :: "accessory \<Rightarrow> run_state \<Rightarrow> run_state" where
  "configureAccessory a st =
     st\<lparr>effects := effects st @ [LogDebug (LoadingFromCache (displayName a))],
        accessories := accessories st
          @ [a\<lparr>restartsSinceSeen := restartsSinceSeen a + 1\<rparr>]\<rparr>"

text \<open>Homebridge calls \<open>configureAccessory\<close> once for every accessory of its cache.\<close>

definition restoreCache :: "accessory list \<Rightarrow> run_state \<Rightarrow> run_state" where
  "restoreCache cached st = foldl (\<lambda>s a. configureAccessory a s) st cached"

section \<open>\<open>discoverDevices\<close>: the scan loop\<close>

text \<open>
  The \<open>while\<close> loop of line 80.  A scan that throws ends the method; the state reached
  goes with the exception.
\<close>

function scanWhile ::
  "env \<Rightarrow> device list \<Rightarrow> nat \<Rightarrow> run_state
     \<Rightarrow> (js_error \<times> run_state) + (device list \<times> run_state)" where
  "scanWhile e devices scans st =
     (if devices = [] \<and> scans < 5 then
        (case scan e (scanCalls st) of
           Inl err \<Rightarrow>
             Inl (err, st\<lparr>effects := effects st @ [LogWarn (ScanFoundZero (scans + 1))],
                          scanCalls := scanCalls st + 1\<rparr>)
         | Inr devices' \<Rightarrow>
             scanWhile e devices' (scans + 1)
               (st\<lparr>effects := effects st @ [LogWarn (ScanFoundZero (scans + 1))],
                   scanCalls := scanCalls st + 1\<rparr>))
      else Inr (devices, st))"
  by pat_completeness auto
termination
  by (relation "measure (\<lambda>(e, devices, scans, st). 5 - scans)") auto

declare scanWhile.simps [simp del]

text \<open>Lines 78 to 90: the first scan, the rescans, and the log line with the count.\<close>

definition scanPhase ::
  "env \<Rightarrow> run_state \<Rightarrow> (js_error \<times> run_state) + (device list \<times> run_state)" where
  "scanPhase e st =
     (case scan e (scanCalls st) of
        Inl err \<Rightarrow> Inl (err, st\<lparr>scanCalls := scanCalls st + 1\<rparr>)
      | Inr devices0 \<Rightarrow>
          (case scanWhile e devices0 0 (st\<lparr>scanCalls := scanCalls st + 1\<rparr>) of
             Inl thrown \<Rightarrow> Inl thrown
           | Inr (devices, st') \<Rightarrow>
               Inr (devices,
                    emit [if length devices = 0 then LogWarn FoundZeroDevices
                          else LogInfo (FoundDevices (length devices))] st')))"

section \<open>\<open>discoverDevices\<close>: the loop over the discovered devices\<close>

text \<open>
  Method One (lines 113 to 172), for a device whose uuid no accessory carries.  The two
  awaited collaborator calls come first and may throw; nothing has been changed yet when
  they do.
\<close>

definition registerNew ::
  "env \<Rightarrow> config \<Rightarrow> string \<Rightarrow> device \<Rightarrow> run_state \<Rightarrow> js_error + run_state" where
  "registerNew e cfg uuid dev st =
     (case createAccessory e dev of
        Inl err \<Rightarrow> Inl err
      | Inr dt \<Rightarrow>
          (case getState e (ipAddress dev) of
             Inl err \<Rightarrow> Inl err
           | Inr state \<Rightarrow>
               let dev' = dev\<lparr>initialState := Some (debugBuffer state)\<rparr>;
                   st1 = emit (isAllowedLog cfg (uniqueId dev')) st
               in if \<not> isAllowed cfg (uniqueId dev')
                  then Inr (emit [LogWarn (NewDeviceNotAllowed (uniqueId dev'))] st1)
                  else
                    let acc = \<lparr>UUID = uuid,
                               displayName = convenientName dt,
                               deviceType = dt,
                               device = dev',
                               cachedIPAddress = ipAddress dev',
                               restartsSinceSeen = 0\<rparr>
                    in Inr (st1\<lparr>effects := effects st1
                                  @ [RegisterPlatformAccessories acc,
                                     LogInfo (RegisteringNew (displayName acc)
                                                (uniqueId dev') (ipAddress dev'))],
                                registeredDevices := registeredDevices st1 + 1,
                                newDevices := newDevices st1 + 1,
                                accessories := accessories st1 @ [acc]\<rparr>)))"

text \<open>
  Lines 184 to 199: the counter reset and the address check, on the accessory object
  itself.  \<open>driftLog\<close> is the four warnings of the branch.
\<close>

definition markSeen :: "device \<Rightarrow> accessory \<Rightarrow> accessory" where
  "markSeen dev existing =
     (let a = existing\<lparr>restartsSinceSeen := 0\<rparr>
      in if cachedIPAddress a \<noteq> ipAddress dev
         then a\<lparr>cachedIPAddress := ipAddress dev\<rparr>
         else a)"

definition driftLog :: "device \<Rightarrow> accessory \<Rightarrow> effect list" where
  "driftLog dev existing =
     (if cachedIPAddress existing \<noteq> ipAddress dev
      then [LogWarn (IpDiscrepancy (displayName existing)),
            LogWarn (ExpectedIp (cachedIPAddress existing)),
            LogWarn (DiscoveredIp (ipAddress dev)),
            LogWarn (IpReassigned (ipAddress dev))]
      else [])"

text \<open>
  Method Two (lines 179 to 222), for the accessory found at position \<open>i\<close>.  The accessory
  is changed in place: the list keeps its length and its other elements.
\<close>

definition updateExisting :: "config \<Rightarrow> nat \<Rightarrow> device \<Rightarrow> run_state \<Rightarrow> run_state" where
  "updateExisting cfg i dev st =
     (let existing = accessories st ! i;
          a = markSeen dev existing;
          uid = uniqueId (device a);
          st1 = st\<lparr>accessories := (accessories st)[i := a],
                   effects := effects st @ driftLog dev existing @ isAllowedLog cfg uid\<rparr>
      in if \<not> isAllowed cfg uid
         then emit [LogWarn (WillBePruned (displayName a) uid),
                    UnregisterPlatformAccessories a] st1
         else st1\<lparr>effects := effects st1
                      @ [LogInfo (RegisteringCached (displayName a) uid (cachedIPAddress a)),
                         UpdatePlatformAccessories a],
                    registeredDevices := registeredDevices st1 + 1\<rparr>)"

text \<open>The body of the \<open>for\<close> loop of line 96.\<close>

definition processDevice ::
  "env \<Rightarrow> config \<Rightarrow> device \<Rightarrow> run_state \<Rightarrow> js_error + run_state" where
  "processDevice e cfg dev st =
     (let uuid = uuidGenerate e (uniqueId dev)
      in case findIndex (\<lambda>a. UUID a = uuid) (accessories st) of
           None \<Rightarrow> registerNew e cfg uuid dev st
         | Some i \<Rightarrow> Inr (updateExisting cfg i dev st))"

text \<open>
  The loop stops at the first exception; the pair holds the exception, if any, and the
  state reached when it was thrown.
\<close>

fun forDevices ::
  "env \<Rightarrow> config \<Rightarrow> device list \<Rightarrow> run_state \<Rightarrow> js_error option \<times> run_state" where
  "forDevices e cfg [] st = (None, st)"
| "forDevices e cfg (dev # devs) st =
     (case processDevice e cfg dev st of
        Inl err \<Rightarrow> (Some err, st)
      | Inr st' \<Rightarrow> forDevices e cfg devs st')"

text \<open>Lines 94 to 229: the \<open>try\<close> around the whole loop and its \<open>catch\<close>.\<close>

definition reconcile :: "env \<Rightarrow> config \<Rightarrow> device list \<Rightarrow> run_state \<Rightarrow> run_state" where
  "reconcile e cfg devs st =
     (case forDevices e cfg devs st of
        (None, st') \<Rightarrow> st'
      | (Some err, st') \<Rightarrow> emit [LogError err] st')"

section \<open>\<open>discoverDevices\<close>: the pruning sweep\<close>

definition markedForDeletion :: "accessory \<Rightarrow> bool" where
  "markedForDeletion a = includesStr (toLowerCase (displayName a)) ''delete''"

text \<open>Lines 254 to 280, reached when neither pruning rule has fired.\<close>

definition unseenCheck :: "config \<Rightarrow> accessory \<Rightarrow> run_state \<Rightarrow> run_state" where
  "unseenCheck cfg a st =
     (if restartsSinceSeen a > 0 then
        (let uid = uniqueId (device a);
             st1 = emit (isAllowedLog cfg uid) st
         in if \<not> isAllowed cfg uid
            then emit [LogWarn (WillBePruned (displayName a) uid),
                       UnregisterPlatformAccessories a] st1
            else st1\<lparr>effects := effects st1
                         @ [LogWarn (ContinuingUnseen (displayName a) (restartsSinceSeen a)
                                       uid (cachedIPAddress a)),
                            UpdatePlatformAccessories a],
                       registeredDevices := registeredDevices st1 + 1,
                       unseenDevices := unseenDevices st1 + 1\<rparr>)
      else st)"

text \<open>
  The body of the \<open>for\<close> loop of line 236.  Reading \<open>this.config.pruning.\<dots>\<close> throws when
  the section is missing; no \<open>try\<close> encloses this loop.
\<close>

definition pruneStep :: "config \<Rightarrow> accessory \<Rightarrow> run_state \<Rightarrow> js_error + run_state" where
  "pruneStep cfg a st =
     (if markedForDeletion a
      then Inr (emit [UnregisterPlatformAccessories a,
                      LogWarn (PrunedMarkedForDeletion (displayName a))] st)
      else
        (case pruning cfg of
           None \<Rightarrow> Inl TypeError
         | Some p \<Rightarrow>
             if pruneMissingCachedAccessories p \<or> pruneAllAccessoriesNextRestart p
             then
               (if int (restartsSinceSeen a) \<ge> restartsBeforeMissingAccessoriesPruned p
                   \<or> pruneAllAccessoriesNextRestart p
                then Inr (emit [UnregisterPlatformAccessories a,
                                LogWarn (PrunedNotSeen (displayName a) (restartsSinceSeen a))]
                            st)
                else Inr (unseenCheck cfg a st))
             else Inr (unseenCheck cfg a st)))"

fun forAccessories ::
  "config \<Rightarrow> accessory list \<Rightarrow> run_state \<Rightarrow> js_error option \<times> run_state" where
  "forAccessories cfg [] st = (None, st)"
| "forAccessories cfg (a # as) st =
     (case pruneStep cfg a st of
        Inl err \<Rightarrow> (Some err, st)
      | Inr st' \<Rightarrow> forAccessories cfg as st')"

definition pruneSweep :: "config \<Rightarrow> run_state \<Rightarrow> js_error option \<times> run_state" where
  "pruneSweep cfg st = forAccessories cfg (accessories st) st"

section \<open>\<open>discoverDevices\<close>\<close>

text \<open>
  Lines 72 to 76: the three counters and the first log line.  The two lines before them
  look up the network interface, which only that log line mentions.
\<close>

definition beforeScan :: "run_state \<Rightarrow> run_state" where
  "beforeScan st0 =
     emit [LogInfo ScanningBroadcastAddress]
       (st0\<lparr>registeredDevices := 0, newDevices := 0, unseenDevices := 0\<rparr>)"

text \<open>
  The whole method.  The result is the exception the returned promise is rejected with,
  if any, and the state reached.
\<close>

definition discoverDevices ::
  "env \<Rightarrow> config \<Rightarrow> run_state \<Rightarrow> js_error option \<times> run_state" where
  "discoverDevices e cfg st0 =
     (case scanPhase e (beforeScan st0) of
        Inl (err, st) \<Rightarrow> (Some err, st)
      | Inr (devices, st1) \<Rightarrow>
          (case pruneSweep cfg (reconcile e cfg devices st1) of
             (Some err, st2) \<Rightarrow> (Some err, st2)
           | (None, st2) \<Rightarrow>
               (None,
                emit [LogInfo (Summary (registeredDevices st2) (newDevices st2)
                                 (registeredDevices st2 - newDevices st2 - unseenDevices st2)
                                 (unseenDevices st2))] st2)))"

text \<open>
  One process start: the constructor runs, Homebridge restores its cache through
  \<open>configureAccessory\<close>, then \<open>didFinishLaunching\<close> fires and its callback calls
  \<open>discoverDevices\<close>.  \<open>launch\<close> is the state in which that call is made.
\<close>

definition launch :: "accessory list \<Rightarrow> run_state" where
  "launch cached =
     emit [LogDebug ExecutedDidFinishLaunching]
       (restoreCache cached (emit [LogDebug FinishedInitializing] initialPlatform))"

definition startup ::
  "env \<Rightarrow> config \<Rightarrow> accessory list \<Rightarrow> js_error option \<times> run_state" where
  "startup e cfg cached = discoverDevices e cfg (launch cached)"

section \<open>Reading the effect trace\<close>

text \<open>The effects appended between two states of one run.\<close>

definition emitted :: "run_state \<Rightarrow> run_state \<Rightarrow> effect list" where
  "emitted st st' = drop (length (effects st)) (effects st')"

section \<open>The allow-list policy of the specification\<close>

text \<open>
  Section 4.3 of the specification, clause by clause, over its typed configuration: a
  list of identifiers and a mode string, either of which may be unset.  No configuration:
  allowed.  Mode includes \<open>blacklist\<close> and the identifier is listed: not allowed.  Else
  mode includes \<open>whitelist\<close> and the identifier is not listed: not allowed.  Otherwise
  allowed.
\<close>

definition isAllowedSpec :: "string list option \<Rightarrow> string option \<Rightarrow> string \<Rightarrow> bool" where
  "isAllowedSpec ids mode uid =
     (case (ids, mode) of
        (Some xs, Some m) \<Rightarrow>
          if includesStr m ''blacklist'' \<and> uid \<in> set xs then False
          else if includesStr m ''whitelist'' \<and> uid \<notin> set xs then False
          else True
      | _ \<Rightarrow> True)"

text \<open>The \<open>deviceManagement\<close> section that holds such a typed configuration.\<close>

definition allowListConfig ::
  "string list option \<Rightarrow> string option \<Rightarrow> deviceManagement_config" where
  "allowListConfig ids mode =
     \<lparr>blacklistedUniqueIDs = (case ids of None \<Rightarrow> JUndefined | Some xs \<Rightarrow> JArr (map JStr xs)),
      blacklistOrWhitelist = (case mode of None \<Rightarrow> JUndefined | Some m \<Rightarrow> JStr m)\<rparr>"

section \<open>The pruning rules of the specification\<close>

text \<open>
  Rule 2 of section 4.4 of the specification, in its words, and the refusal that rule 3
  adds for an accessory that was not seen.
\<close>

abbreviation retentionRuleFires :: "pruning_config \<Rightarrow> accessory \<Rightarrow> bool" where
  "retentionRuleFires p a \<equiv>
     (pruneMissingCachedAccessories p
        \<and> int (restartsSinceSeen a) \<ge> restartsBeforeMissingAccessoriesPruned p)
     \<or> pruneAllAccessoriesNextRestart p"

abbreviation unseenAndRefused :: "config \<Rightarrow> accessory \<Rightarrow> bool" where
  "unseenAndRefused cfg a \<equiv>
     restartsSinceSeen a > 0 \<and> \<not> isAllowed cfg (uniqueId (device a))"

section \<open>Concrete inputs\<close>

definition quietEnv :: env where
  "quietEnv =
     \<lparr>uuidGenerate = (\<lambda>s. ''uuid-'' @ s),
      scan = (\<lambda>n. Inr []),
      createAccessory = (\<lambda>d. Inr \<lparr>convenientName = ''RGBW Strip''\<rparr>),
      getState = (\<lambda>ip. Inr \<lparr>debugBuffer = [129, 51]\<rparr>)\<rparr>"

definition bareConfig :: config where
  "bareConfig = \<lparr>deviceManagement = None, pruning = None\<rparr>"

definition keepAll :: pruning_config where
  "keepAll =
     \<lparr>pruneMissingCachedAccessories = False,
      pruneAllAccessoriesNextRestart = False,
      restartsBeforeMissingAccessoriesPruned = 3\<rparr>"

definition pruneAfterThree :: pruning_config where
  "pruneAfterThree =
     \<lparr>pruneMissingCachedAccessories = True,
      pruneAllAccessoriesNextRestart = False,
      restartsBeforeMissingAccessoriesPruned = 3\<rparr>"

definition bothModesConfig :: config where
  "bothModesConfig =
     \<lparr>deviceManagement = Some (allowListConfig (Some [''A1'']) (Some ''blacklist,whitelist'')),
      pruning = Some keepAll\<rparr>"

definition blacklistA1Config :: config where
  "blacklistA1Config =
     \<lparr>deviceManagement = Some (allowListConfig (Some [''A1'']) (Some ''blacklist'')),
      pruning = Some keepAll\<rparr>"

definition lamp :: accessory where
  "lamp =
     \<lparr>UUID = ''uuid-A1'', displayName = ''Desk Lamp'',
      deviceType = \<lparr>convenientName = ''RGBW Strip''\<rparr>,
      device = \<lparr>uniqueId = ''A1'', ipAddress = ''10.0.0.5'', modelNumber = ''AK001'',
                initialState = None\<rparr>,
      cachedIPAddress = ''10.0.0.5'', restartsSinceSeen = 0\<rparr>"

definition holding :: "accessory list \<Rightarrow> run_state" where
  "holding accs = initialPlatform\<lparr>accessories := accs\<rparr>"

definition lampUnseen :: "nat \<Rightarrow> accessory" where
  "lampUnseen n = lamp\<lparr>restartsSinceSeen := n\<rparr>"

definition lampToDelete :: accessory where
  "lampToDelete = lamp\<lparr>displayName := ''Desk Lamp DELETE''\<rparr>"

definition flakyEnv :: env where
  "flakyEnv = quietEnv\<lparr>getState := (\<lambda>ip. if ip = ''10.0.0.7''
       then Inl (CollaboratorError ''timeout'') else Inr \<lparr>debugBuffer = [129, 51]\<rparr>)\<rparr>"

definition bulbA :: device where
  "bulbA = \<lparr>uniqueId = ''A1'', ipAddress = ''10.0.0.7'', modelNumber = ''AK001'',
            initialState = None\<rparr>"

definition bulbB :: device where
  "bulbB = \<lparr>uniqueId = ''B2'', ipAddress = ''10.0.0.8'', modelNumber = ''AK001'',
            initialState = None\<rparr>"

definition movedBulbA :: device where
  "movedBulbA = \<lparr>uniqueId = ''A1'', ipAddress = ''10.0.0.9'', modelNumber = ''AK001'',
            initialState = None\<rparr>"

definition lampB :: accessory where
  "lampB =
     \<lparr>UUID = ''uuid-B2'', displayName = ''Shelf Light'',
      deviceType = \<lparr>convenientName = ''RGBW Strip''\<rparr>,
      device = bulbB,
      cachedIPAddress = ''10.0.0.8'', restartsSinceSeen = 0\<rparr>"

definition flakyScanEnv :: env where
  "flakyScanEnv = flakyEnv\<lparr>scan := (\<lambda>n. Inr [bulbA, bulbB])\<rparr>"

definition quietScanEnv :: env where
  "quietScanEnv = quietEnv\<lparr>scan := (\<lambda>n. Inr [bulbA, bulbB])\<rparr>"

definition lampC :: accessory where
  "lampC =
     \<lparr>UUID = ''uuid-C3'', displayName = ''Porch Light'',
      deviceType = \<lparr>convenientName = ''RGBW Strip''\<rparr>,
      device = \<lparr>uniqueId = ''C3'', ipAddress = ''10.0.0.6'', modelNumber = ''AK001'',
                initialState = None\<rparr>,
      cachedIPAddress = ''10.0.0.6'', restartsSinceSeen = 0\<rparr>"

definition keepAllConfig :: config where
  "keepAllConfig = \<lparr>deviceManagement = None, pruning = Some keepAll\<rparr>"

definition homeBulbA :: device where
  "homeBulbA = \<lparr>uniqueId = ''A1'', ipAddress = ''10.0.0.5'', modelNumber = ''AK001'',
            initialState = None\<rparr>"

definition movedBulbB :: device where
  "movedBulbB = \<lparr>uniqueId = ''B2'', ipAddress = ''10.0.0.12'', modelNumber = ''AK001'',
            initialState = None\<rparr>"

section \<open>Properties\<close>

subsection \<open>Strings, lists and the effect trace\<close>

lemma startsWith_iff: "startsWith s t \<longleftrightarrow> (\<exists>ss. s = t @ ss)"
  by (induction t arbitrary: s) (auto split: list.splits)

lemma includesStr_iff: "includesStr s t \<longleftrightarrow> (\<exists>ps ss. s = ps @ t @ ss)"
proof (induction s)
  case Nil
  then show ?case by auto
next
  case (Cons c s)
  have "(\<exists>ps ss. c # s = ps @ t @ ss) \<longleftrightarrow>
        (\<exists>ss. c # s = t @ ss) \<or> (\<exists>ps ss. s = ps @ t @ ss)"
    by (auto simp: Cons_eq_append_conv)
  with Cons show ?case by (simp add: startsWith_iff)
qed

lemma emitted_append [simp]:
  "effects st' = effects st @ es \<Longrightarrow> emitted st st' = es"
  by (simp add: emitted_def)

lemma findIndex_Some:
  "findIndex p xs = Some i \<Longrightarrow> i < length xs \<and> p (xs ! i) \<and> (\<forall>j<i. \<not> p (xs ! j))"
proof (induction xs arbitrary: i)
  case Nil
  then show ?case by simp
next
  case (Cons x xs)
  show ?case
  proof (cases "p x")
    case True
    with Cons.prems show ?thesis by simp
  next
    case False
    with Cons.prems obtain k where k: "findIndex p xs = Some k" "i = Suc k" by auto
    from Cons.IH[OF k(1)] False k(2) show ?thesis
      by (auto simp: nth_Cons split: nat.splits)
  qed
qed

lemma findIndex_None: "findIndex p xs = None \<longleftrightarrow> (\<forall>x\<in>set xs. \<not> p x)"
  by (induction xs) auto

lemma findIndex_append:
  "findIndex p (xs @ ys) =
     (case findIndex p xs of
        Some i \<Rightarrow> Some i
      | None \<Rightarrow> map_option (\<lambda>k. length xs + k) (findIndex p ys))"
proof (induction xs)
  case Nil
  show ?case by (cases "findIndex p ys") simp_all
next
  case (Cons x xs)
  show ?case
  proof (cases "p x")
    case True
    then show ?thesis by simp
  next
    case False
    then show ?thesis
      using Cons.IH
      by (cases "findIndex p xs"; cases "findIndex p ys") simp_all
  qed
qed

lemma findIndex_map:
  "findIndex (\<lambda>a. f a = u) xs = findIndex (\<lambda>x. x = u) (map f xs)"
  by (induction xs) auto

lemma findIndex_UUID_cong:
  "map UUID xs = map UUID ys \<Longrightarrow>
   findIndex (\<lambda>a. UUID a = u) xs = findIndex (\<lambda>a. UUID a = u) ys"
  by (simp add: findIndex_map[of UUID])

lemma findIndex_snoc_below:
  "j < length xs \<Longrightarrow> findIndex p (xs @ [x]) = Some j \<longleftrightarrow> findIndex p xs = Some j"
  by (cases "findIndex p xs") (auto simp: findIndex_append split: if_splits)

lemma isAllowedLog_no_registry [simp]:
  "UnregisterPlatformAccessories b \<notin> set (isAllowedLog cfg uid)"
  "UpdatePlatformAccessories b \<notin> set (isAllowedLog cfg uid)"
  "RegisterPlatformAccessories b \<notin> set (isAllowedLog cfg uid)"
  by (auto simp: isAllowedLog_def split: sum.splits)

lemma driftLog_no_registry [simp]:
  "UnregisterPlatformAccessories b \<notin> set (driftLog dev a)"
  "UpdatePlatformAccessories b \<notin> set (driftLog dev a)"
  "RegisterPlatformAccessories b \<notin> set (driftLog dev a)"
  by (simp_all add: driftLog_def)

subsection \<open>The scan loop\<close>

lemma scanWhile_all_empty:
  assumes "\<forall>n. scan e n = Inr []"
  shows "scans \<le> 5 \<Longrightarrow> scanWhile e [] scans st =
    Inr ([], st\<lparr>effects := effects st @ map (\<lambda>k. LogWarn (ScanFoundZero (k + 1))) [scans..<5],
                scanCalls := scanCalls st + (5 - scans)\<rparr>)"
proof (induction "5 - scans" arbitrary: scans st)
  case 0
  then have "scans = 5" by simp
  then show ?case by (simp add: scanWhile.simps)
next
  case (Suc k)
  then have lt: "scans < 5" and k: "k = 5 - (scans + 1)" and le: "scans + 1 \<le> 5" by simp_all
  have up: "[scans..<5] = scans # [scans + 1..<5]" using lt by (simp add: upt_conv_Cons)
  show ?case
    using Suc.hyps(1)[OF k le] lt assms
    by (subst scanWhile.simps) (simp add: up)
qed

lemma scanWhile_accessories:
  "scanWhile e devices scans st = Inr (devices', st') \<Longrightarrow> accessories st' = accessories st"
proof (induction e devices scans st rule: scanWhile.induct)
  case (1 e devices scans st)
  show ?case
  proof (cases "devices = [] \<and> scans < 5")
    case True
    with "1.prems" obtain ds where ds: "scan e (scanCalls st) = Inr ds"
      by (subst (asm) scanWhile.simps) (auto split: sum.splits)
    with True "1.prems" have "scanWhile e ds (scans + 1)
               (st\<lparr>effects := effects st @ [LogWarn (ScanFoundZero (scans + 1))],
                   scanCalls := scanCalls st + 1\<rparr>) = Inr (devices', st')"
      by (subst (asm) scanWhile.simps) simp
    from "1.IH"[OF True ds this] show ?thesis by simp
  next
    case False
    with "1.prems" show ?thesis by (subst (asm) scanWhile.simps) auto
  qed
qed

lemma scanPhase_accessories:
  "scanPhase e st = Inr (devices, st') \<Longrightarrow> accessories st' = accessories st"
  by (auto simp: scanPhase_def emit_def split: sum.splits dest!: scanWhile_accessories)

subsection \<open>\<open>isAllowed\<close>\<close>

lemma isAllowed_fail_open:
  "isAllowedTry cfg uid = Inl err \<Longrightarrow> isAllowed cfg uid"
  by (simp add: isAllowed_def)

lemma isAllowed_absent:
  "isAllowed (cfg\<lparr>deviceManagement := None\<rparr>) uid"
  "isAllowed (cfg\<lparr>deviceManagement := Some (dm\<lparr>blacklistedUniqueIDs := JUndefined\<rparr>)\<rparr>) uid"
  "isAllowed (cfg\<lparr>deviceManagement := Some (dm\<lparr>blacklistOrWhitelist := JUndefined\<rparr>)\<rparr>) uid"
  by (simp_all add: isAllowed_def isAllowedTry_def)

subsection \<open>The pruning sweep\<close>

lemma pruneStep_marked:
  "markedForDeletion a \<Longrightarrow>
   pruneStep cfg a st =
     Inr (emit [UnregisterPlatformAccessories a,
                LogWarn (PrunedMarkedForDeletion (displayName a))] st)"
  by (simp add: pruneStep_def)

lemma pruneStep_present:
  assumes "pruning cfg = Some p"
  shows "\<exists>st' es. pruneStep cfg a st = Inr st'
           \<and> accessories st' = accessories st
           \<and> effects st' = effects st @ es
           \<and> (\<forall>b. UnregisterPlatformAccessories b \<in> set es \<longleftrightarrow>
                  b = a \<and> (markedForDeletion a \<or> retentionRuleFires p a
                            \<or> unseenAndRefused cfg a))
           \<and> (\<forall>b. UpdatePlatformAccessories b \<in> set es \<longleftrightarrow>
                  b = a \<and> \<not> markedForDeletion a \<and> \<not> retentionRuleFires p a
                    \<and> restartsSinceSeen a > 0 \<and> isAllowed cfg (uniqueId (device a)))"
  using assms
  by (auto simp: pruneStep_def unseenCheck_def emit_def Let_def)

lemma forAccessories_present:
  assumes "pruning cfg = Some p"
  shows "\<exists>st' es. forAccessories cfg as st = (None, st')
           \<and> accessories st' = accessories st
           \<and> effects st' = effects st @ es
           \<and> (\<forall>b. UnregisterPlatformAccessories b \<in> set es \<longleftrightarrow>
                  b \<in> set as \<and> (markedForDeletion b \<or> retentionRuleFires p b
                                  \<or> unseenAndRefused cfg b))
           \<and> (\<forall>b. UpdatePlatformAccessories b \<in> set es \<longleftrightarrow>
                  b \<in> set as \<and> \<not> markedForDeletion b \<and> \<not> retentionRuleFires p b
                    \<and> restartsSinceSeen b > 0 \<and> isAllowed cfg (uniqueId (device b)))"
proof (induction as arbitrary: st)
  case Nil
  then show ?case by simp
next
  case (Cons a as)
  obtain st1 es1 where s1: "pruneStep cfg a st = Inr st1"
      "accessories st1 = accessories st" "effects st1 = effects st @ es1"
      "\<forall>b. UnregisterPlatformAccessories b \<in> set es1 \<longleftrightarrow>
            b = a \<and> (markedForDeletion a \<or> retentionRuleFires p a \<or> unseenAndRefused cfg a)"
      "\<forall>b. UpdatePlatformAccessories b \<in> set es1 \<longleftrightarrow>
            b = a \<and> \<not> markedForDeletion a \<and> \<not> retentionRuleFires p a
              \<and> restartsSinceSeen a > 0 \<and> isAllowed cfg (uniqueId (device a))"
    using pruneStep_present[OF assms, of a st] by blast
  obtain st2 es2 where s2: "forAccessories cfg as st1 = (None, st2)"
      "accessories st2 = accessories st1" "effects st2 = effects st1 @ es2"
      "\<forall>b. UnregisterPlatformAccessories b \<in> set es2 \<longleftrightarrow>
            b \<in> set as \<and> (markedForDeletion b \<or> retentionRuleFires p b
                            \<or> unseenAndRefused cfg b)"
      "\<forall>b. UpdatePlatformAccessories b \<in> set es2 \<longleftrightarrow>
            b \<in> set as \<and> \<not> markedForDeletion b \<and> \<not> retentionRuleFires p b
              \<and> restartsSinceSeen b > 0 \<and> isAllowed cfg (uniqueId (device b))"
    using Cons.IH[of st1] by blast
  have "forAccessories cfg (a # as) st = (None, st2)" using s1(1) s2(1) by simp
  moreover have "accessories st2 = accessories st" using s1(2) s2(2) by simp
  moreover have "effects st2 = effects st @ (es1 @ es2)" using s1(3) s2(3) by simp
  moreover have "\<forall>b. UnregisterPlatformAccessories b \<in> set (es1 @ es2) \<longleftrightarrow>
            b \<in> set (a # as) \<and> (markedForDeletion b \<or> retentionRuleFires p b
                                  \<or> unseenAndRefused cfg b)"
    using s1(4) s2(4) by auto
  moreover have "\<forall>b. UpdatePlatformAccessories b \<in> set (es1 @ es2) \<longleftrightarrow>
            b \<in> set (a # as) \<and> \<not> markedForDeletion b \<and> \<not> retentionRuleFires p b
              \<and> restartsSinceSeen b > 0 \<and> isAllowed cfg (uniqueId (device b))"
    using s1(5) s2(5) by auto
  ultimately show ?case by blast
qed

lemma pruneSweep_present:
  assumes "pruning cfg = Some p"
  shows "fst (pruneSweep cfg st) = None"
    and "accessories (snd (pruneSweep cfg st)) = accessories st"
    and "UnregisterPlatformAccessories b \<in> set (emitted st (snd (pruneSweep cfg st))) \<longleftrightarrow>
           b \<in> set (accessories st) \<and> (markedForDeletion b \<or> retentionRuleFires p b
                                         \<or> unseenAndRefused cfg b)"
    and "UpdatePlatformAccessories b \<in> set (emitted st (snd (pruneSweep cfg st))) \<longleftrightarrow>
           b \<in> set (accessories st) \<and> \<not> markedForDeletion b \<and> \<not> retentionRuleFires p b
             \<and> restartsSinceSeen b > 0 \<and> isAllowed cfg (uniqueId (device b))"
proof -
  obtain st' es where s: "forAccessories cfg (accessories st) st = (None, st')"
      "accessories st' = accessories st" "effects st' = effects st @ es"
      "\<forall>b. UnregisterPlatformAccessories b \<in> set es \<longleftrightarrow>
            b \<in> set (accessories st) \<and> (markedForDeletion b \<or> retentionRuleFires p b
                                          \<or> unseenAndRefused cfg b)"
      "\<forall>b. UpdatePlatformAccessories b \<in> set es \<longleftrightarrow>
            b \<in> set (accessories st) \<and> \<not> markedForDeletion b \<and> \<not> retentionRuleFires p b
              \<and> restartsSinceSeen b > 0 \<and> isAllowed cfg (uniqueId (device b))"
    using forAccessories_present[OF assms, of "accessories st" st] by blast
  have e: "emitted st st' = es" using s(3) by simp
  show "fst (pruneSweep cfg st) = None" using s(1) by (simp add: pruneSweep_def)
  show "accessories (snd (pruneSweep cfg st)) = accessories st"
    using s(1,2) by (simp add: pruneSweep_def)
  show "UnregisterPlatformAccessories b \<in> set (emitted st (snd (pruneSweep cfg st))) \<longleftrightarrow>
           b \<in> set (accessories st) \<and> (markedForDeletion b \<or> retentionRuleFires p b
                                         \<or> unseenAndRefused cfg b)"
    using s(1,4) e by (simp add: pruneSweep_def)
  show "UpdatePlatformAccessories b \<in> set (emitted st (snd (pruneSweep cfg st))) \<longleftrightarrow>
           b \<in> set (accessories st) \<and> \<not> markedForDeletion b \<and> \<not> retentionRuleFires p b
             \<and> restartsSinceSeen b > 0 \<and> isAllowed cfg (uniqueId (device b))"
    using s(1,5) e by (simp add: pruneSweep_def)
qed

lemma pruneStep_accessories:
  "pruneStep cfg a st = Inr st' \<Longrightarrow> accessories st' = accessories st"
  by (auto simp: pruneStep_def unseenCheck_def emit_def Let_def split: if_splits option.splits)

lemma forAccessories_accessories:
  "accessories (snd (forAccessories cfg as st)) = accessories st"
  by (induction as arbitrary: st) (auto split: sum.splits dest: pruneStep_accessories)

subsection \<open>The loop over the discovered devices\<close>

lemma markSeen_eq:
  "markSeen dev a = a\<lparr>restartsSinceSeen := 0, cachedIPAddress := ipAddress dev\<rparr>"
  by (cases a) (simp add: markSeen_def Let_def)

lemma markSeen_fields [simp]:
  "UUID (markSeen dev a) = UUID a"
  "restartsSinceSeen (markSeen dev a) = 0"
  "cachedIPAddress (markSeen dev a) = ipAddress dev"
  "device (markSeen dev a) = device a"
  "displayName (markSeen dev a) = displayName a"
  by (simp_all add: markSeen_eq)

lemma markSeen_same_address:
  "cachedIPAddress a = ipAddress dev \<Longrightarrow> markSeen dev a = a\<lparr>restartsSinceSeen := 0\<rparr>"
  by (simp add: markSeen_def Let_def)

lemma updateExisting_accessories:
  "accessories (updateExisting cfg i dev st) =
     (accessories st)[i := markSeen dev (accessories st ! i)]"
  by (simp add: updateExisting_def Let_def emit_def)

lemma updateExisting_effects:
  "effects (updateExisting cfg i dev st) =
     effects st @ driftLog dev (accessories st ! i)
       @ isAllowedLog cfg (uniqueId (device (accessories st ! i)))
       @ (let a = markSeen dev (accessories st ! i); uid = uniqueId (device a)
          in if \<not> isAllowed cfg uid
             then [LogWarn (WillBePruned (displayName a) uid), UnregisterPlatformAccessories a]
             else [LogInfo (RegisteringCached (displayName a) uid (cachedIPAddress a)),
                   UpdatePlatformAccessories a])"
  by (simp add: updateExisting_def Let_def emit_def markSeen_eq)

lemma updateExisting_newDevices:
  "newDevices (updateExisting cfg i dev st) = newDevices st"
  by (simp add: updateExisting_def Let_def emit_def)

lemma updateExisting_registry:
  "\<exists>es. effects (updateExisting cfg i dev st) = effects st @ es
        \<and> (\<forall>b. RegisterPlatformAccessories b \<notin> set es)"
  by (simp add: updateExisting_effects Let_def)

lemma processDevice_existing:
  "findIndex (\<lambda>a. UUID a = uuidGenerate e (uniqueId dev)) (accessories st) = Some i \<Longrightarrow>
   processDevice e cfg dev st = Inr (updateExisting cfg i dev st)"
  by (simp add: processDevice_def)

text \<open>The three ways the loop body can end normally.\<close>

lemma processDevice_Inr_cases:
  assumes "processDevice e cfg dev st = Inr st'"
  obtains
    (existing) i where
      "findIndex (\<lambda>a. UUID a = uuidGenerate e (uniqueId dev)) (accessories st) = Some i"
      "st' = updateExisting cfg i dev st"
  | (refused)
      "findIndex (\<lambda>a. UUID a = uuidGenerate e (uniqueId dev)) (accessories st) = None"
      "accessories st' = accessories st"
  | (registered) acc where
      "findIndex (\<lambda>a. UUID a = uuidGenerate e (uniqueId dev)) (accessories st) = None"
      "accessories st' = accessories st @ [acc]"
      "UUID acc = uuidGenerate e (uniqueId dev)"
      "restartsSinceSeen acc = 0"
      "cachedIPAddress acc = ipAddress dev"
proof (cases "findIndex (\<lambda>a. UUID a = uuidGenerate e (uniqueId dev)) (accessories st)")
  case (Some i)
  with assms have "st' = updateExisting cfg i dev st" by (simp add: processDevice_def)
  with Some show ?thesis by (rule existing)
next
  case None
  with assms have r: "registerNew e cfg (uuidGenerate e (uniqueId dev)) dev st = Inr st'"
    by (simp add: processDevice_def)
  show ?thesis
  proof (cases "isAllowed cfg (uniqueId dev)")
    case False
    with r have "accessories st' = accessories st"
      by (auto simp: registerNew_def Let_def emit_def split: sum.splits)
    with None show ?thesis by (rule refused)
  next
    case True
    with r obtain acc where "accessories st' = accessories st @ [acc]"
      "UUID acc = uuidGenerate e (uniqueId dev)" "restartsSinceSeen acc = 0"
      "cachedIPAddress acc = ipAddress dev"
      by (auto simp: registerNew_def Let_def emit_def split: sum.splits)
    with None show ?thesis by (rule registered)
  qed
qed

lemma forDevices_append:
  "forDevices e cfg (xs @ ys) st =
     (case forDevices e cfg xs st of
        (None, st') \<Rightarrow> forDevices e cfg ys st'
      | (Some err, st') \<Rightarrow> (Some err, st'))"
  by (induction xs arbitrary: st) (auto split: sum.splits)

text \<open>
  The invariant of the loop when it ends without an exception: the accessories present
  at the start keep their place and uuid, their counter is 0 exactly when some device of
  the list was matched to them, and every accessory appended by the loop has counter 0
  and the uuid of a device of the list.
\<close>

lemma forDevices_counters:
  assumes "forDevices e cfg devs st = (None, st')"
  shows "length (accessories st) \<le> length (accessories st')
    \<and> (\<forall>i<length (accessories st).
          UUID (accessories st' ! i) = UUID (accessories st ! i)
          \<and> restartsSinceSeen (accessories st' ! i) =
              (if \<exists>dev\<in>set devs.
                    findIndex (\<lambda>a. UUID a = uuidGenerate e (uniqueId dev)) (accessories st)
                      = Some i
               then 0 else restartsSinceSeen (accessories st ! i)))
    \<and> (\<forall>i. length (accessories st) \<le> i \<and> i < length (accessories st') \<longrightarrow>
          restartsSinceSeen (accessories st' ! i) = 0
          \<and> (\<exists>dev\<in>set devs. UUID (accessories st' ! i) = uuidGenerate e (uniqueId dev)))"
  using assms
proof (induction devs arbitrary: st)
  case Nil
  then show ?case by simp
next
  case (Cons dev devs)
  from Cons.prems obtain st1 where
    step: "processDevice e cfg dev st = Inr st1" and rest: "forDevices e cfg devs st1 = (None, st')"
    by (auto split: sum.splits)
  note IH = Cons.IH[OF rest]
  let ?P = "\<lambda>d a. UUID a = uuidGenerate e (uniqueId d)"
  from step show ?case
  proof (cases rule: processDevice_Inr_cases)
    case (existing i0)
    have i0: "i0 < length (accessories st)" using findIndex_Some[OF existing(1)] by simp
    have acc1: "accessories st1 = (accessories st)[i0 := markSeen dev (accessories st ! i0)]"
      using existing(2) by (simp add: updateExisting_accessories)
    have len1: "length (accessories st1) = length (accessories st)" by (simp add: acc1)
    have uu: "map UUID (accessories st1) = map UUID (accessories st)"
      using i0 by (simp add: acc1 map_update list_update_same_conv)
    have fi: "findIndex (?P d) (accessories st1) = findIndex (?P d) (accessories st)" for d
      by (rule findIndex_UUID_cong[OF uu])
    have nth1: "restartsSinceSeen (accessories st1 ! i) =
        (if i = i0 then 0 else restartsSinceSeen (accessories st ! i))"
        "UUID (accessories st1 ! i) = UUID (accessories st ! i)"
      if "i < length (accessories st)" for i
      using that i0 by (auto simp: acc1 nth_list_update)
    show ?thesis
      using IH existing(1) by (auto simp: len1 fi nth1)
  next
    case refused
    show ?thesis
      using IH refused by auto
  next
    case (registered acc)
    have len1: "length (accessories st1) = Suc (length (accessories st))"
      by (simp add: registered(2))
    have fi: "findIndex (?P d) (accessories st1) = Some i
                \<longleftrightarrow> findIndex (?P d) (accessories st) = Some i"
      if "i < length (accessories st)" for d i
      using that by (simp add: registered(2) findIndex_snoc_below)
    have nth1: "accessories st1 ! i = accessories st ! i" if "i < length (accessories st)" for i
      using that by (simp add: registered(2) nth_append)
    have last1: "accessories st1 ! length (accessories st) = acc"
      by (simp add: registered(2))
    from IH have le: "length (accessories st1) \<le> length (accessories st')" by simp
    have A: "UUID (accessories st' ! i) = UUID (accessories st ! i)
          \<and> restartsSinceSeen (accessories st' ! i) =
              (if \<exists>d\<in>set (dev # devs). findIndex (?P d) (accessories st) = Some i
               then 0 else restartsSinceSeen (accessories st ! i))"
      if "i < length (accessories st)" for i
    proof -
      have "i < length (accessories st1)" using that len1 by simp
      with IH have "UUID (accessories st' ! i) = UUID (accessories st1 ! i)
          \<and> restartsSinceSeen (accessories st' ! i) =
              (if \<exists>d\<in>set devs. findIndex (?P d) (accessories st1) = Some i
               then 0 else restartsSinceSeen (accessories st1 ! i))" by blast
      then show ?thesis using that registered(1) by (simp add: fi nth1)
    qed
    have B: "restartsSinceSeen (accessories st' ! i) = 0
          \<and> (\<exists>d\<in>set (dev # devs). UUID (accessories st' ! i) = uuidGenerate e (uniqueId d))"
      if "length (accessories st) \<le> i" "i < length (accessories st')" for i
    proof (cases "i = length (accessories st)")
      case True
      then have "i < length (accessories st1)" using len1 by simp
      with IH have "UUID (accessories st' ! i) = UUID (accessories st1 ! i)
          \<and> restartsSinceSeen (accessories st' ! i) =
              (if \<exists>d\<in>set devs. findIndex (?P d) (accessories st1) = Some i
               then 0 else restartsSinceSeen (accessories st1 ! i))" by blast
      then show ?thesis using True last1 registered(3,4) by simp
    next
      case False
      then have "length (accessories st1) \<le> i" using that(1) len1 by simp
      with IH that(2) show ?thesis by auto
    qed
    show ?thesis using le len1 A B by auto
  qed
qed

text \<open>
  Over a whole loop that ends without an exception: the address of an accessory present
  at the start is the address of the last device matched to it, or its old address when
  no device was matched to it.
\<close>

lemma forDevices_address:
  assumes "forDevices e cfg devs st = (None, st')" and "i < length (accessories st)"
  shows "cachedIPAddress (accessories st' ! i) =
    (case filter (\<lambda>d. findIndex (\<lambda>a. UUID a = uuidGenerate e (uniqueId d)) (accessories st)
                        = Some i) devs of
       [] \<Rightarrow> cachedIPAddress (accessories st ! i)
     | d # ds \<Rightarrow> ipAddress (last (d # ds)))"
  using assms
proof (induction devs arbitrary: st)
  case Nil
  then show ?case by simp
next
  case (Cons dev devs)
  from Cons.prems(1) obtain st1 where
    step: "processDevice e cfg dev st = Inr st1" and rest: "forDevices e cfg devs st1 = (None, st')"
    by (auto split: sum.splits)
  let ?P = "\<lambda>d a. UUID a = uuidGenerate e (uniqueId d)"
  let ?M = "\<lambda>accs d. findIndex (?P d) accs = Some i"
  from step show ?case
  proof (cases rule: processDevice_Inr_cases)
    case (existing i0)
    have i0: "i0 < length (accessories st)" using findIndex_Some[OF existing(1)] by simp
    have acc1: "accessories st1 = (accessories st)[i0 := markSeen dev (accessories st ! i0)]"
      using existing(2) by (simp add: updateExisting_accessories)
    have i1: "i < length (accessories st1)" using Cons.prems(2) by (simp add: acc1)
    have uu: "map UUID (accessories st1) = map UUID (accessories st)"
      using i0 by (simp add: acc1 map_update list_update_same_conv)
    have fi: "?M (accessories st1) = ?M (accessories st)"
      using findIndex_UUID_cong[OF uu] by simp
    have nth1: "cachedIPAddress (accessories st1 ! i) =
        (if i = i0 then ipAddress dev else cachedIPAddress (accessories st ! i))"
      using Cons.prems(2) i0 by (auto simp: acc1 nth_list_update)
    show ?thesis
      using Cons.IH[OF rest i1] existing(1)
      by (auto simp: fi nth1 split: list.splits)
  next
    case refused
    have i1: "i < length (accessories st1)" using Cons.prems(2) refused(2) by simp
    show ?thesis
      using Cons.IH[OF rest i1] refused by (auto split: list.splits)
  next
    case (registered acc)
    have i1: "i < length (accessories st1)" using Cons.prems(2) registered(2) by simp
    have fi: "?M (accessories st1) = ?M (accessories st)"
      using Cons.prems(2) by (simp add: registered(2) findIndex_snoc_below)
    have nth1: "accessories st1 ! i = accessories st ! i"
      using Cons.prems(2) by (simp add: registered(2) nth_append)
    show ?thesis
      using Cons.IH[OF rest i1] registered(1)
      by (auto simp: fi nth1 split: list.splits)
  qed
qed

text \<open>
  The loop on a converged list: every device has its accessory, with the address it
  reports.  The loop then ends without an exception, registers nothing, and changes
  nothing but the counters of the matched accessories, which it sets to 0.
\<close>

lemma forDevices_converged:
  assumes "\<forall>dev\<in>set devs. \<exists>i.
             findIndex (\<lambda>a. UUID a = uuidGenerate e (uniqueId dev)) (accessories st) = Some i
             \<and> cachedIPAddress (accessories st ! i) = ipAddress dev"
  shows "\<exists>st' es. forDevices e cfg devs st = (None, st')
      \<and> effects st' = effects st @ es
      \<and> (\<forall>b. RegisterPlatformAccessories b \<notin> set es)
      \<and> newDevices st' = newDevices st
      \<and> length (accessories st') = length (accessories st)
      \<and> (\<forall>i<length (accessories st).
            accessories st' ! i =
              (if \<exists>dev\<in>set devs.
                    findIndex (\<lambda>a. UUID a = uuidGenerate e (uniqueId dev)) (accessories st)
                      = Some i
               then (accessories st ! i)\<lparr>restartsSinceSeen := 0\<rparr>
               else accessories st ! i))"
  using assms
proof (induction devs arbitrary: st)
  case Nil
  then show ?case by simp
next
  case (Cons dev devs)
  let ?P = "\<lambda>d a. UUID a = uuidGenerate e (uniqueId d)"
  let ?accs = "accessories st"
  from Cons.prems obtain i0 where
    f0: "findIndex (?P dev) ?accs = Some i0" and ip0: "cachedIPAddress (?accs ! i0) = ipAddress dev"
    by auto
  have i0: "i0 < length ?accs" using findIndex_Some[OF f0] by simp
  let ?st1 = "updateExisting cfg i0 dev st"
  have step: "processDevice e cfg dev st = Inr ?st1" by (rule processDevice_existing[OF f0])
  have acc1: "accessories ?st1 = ?accs[i0 := (?accs ! i0)\<lparr>restartsSinceSeen := 0\<rparr>]"
    by (simp add: updateExisting_accessories markSeen_same_address[OF ip0])
  have len1: "length (accessories ?st1) = length ?accs" by (simp add: acc1)
  have uu: "map UUID (accessories ?st1) = map UUID ?accs"
    using i0 by (simp add: acc1 map_update list_update_same_conv)
  have fi: "findIndex (?P d) (accessories ?st1) = findIndex (?P d) ?accs" for d
    by (rule findIndex_UUID_cong[OF uu])
  have nth1: "accessories ?st1 ! i =
      (if i = i0 then (?accs ! i)\<lparr>restartsSinceSeen := 0\<rparr> else ?accs ! i)"
    if "i < length ?accs" for i
    using that by (simp add: acc1 nth_list_update)
  have conv1: "\<forall>d\<in>set devs. \<exists>i. findIndex (?P d) (accessories ?st1) = Some i
                 \<and> cachedIPAddress (accessories ?st1 ! i) = ipAddress d"
  proof
    fix d assume "d \<in> set devs"
    with Cons.prems obtain i where
      i: "findIndex (?P d) ?accs = Some i" "cachedIPAddress (?accs ! i) = ipAddress d"
      by auto
    have "i < length ?accs" using findIndex_Some[OF i(1)] by simp
    then have "cachedIPAddress (accessories ?st1 ! i) = ipAddress d"
      using i(2) by (auto simp: nth1)
    with i(1) show "\<exists>i. findIndex (?P d) (accessories ?st1) = Some i
                 \<and> cachedIPAddress (accessories ?st1 ! i) = ipAddress d"
      by (auto simp: fi)
  qed
  from Cons.IH[OF conv1] obtain st' es where
    r: "forDevices e cfg devs ?st1 = (None, st')"
       "effects st' = effects ?st1 @ es"
       "\<forall>b. RegisterPlatformAccessories b \<notin> set es"
       "newDevices st' = newDevices ?st1"
       "length (accessories st') = length (accessories ?st1)"
       "\<forall>i<length (accessories ?st1). accessories st' ! i =
              (if \<exists>d\<in>set devs. findIndex (?P d) (accessories ?st1) = Some i
               then (accessories ?st1 ! i)\<lparr>restartsSinceSeen := 0\<rparr>
               else accessories ?st1 ! i)"
    by blast
  obtain es1 where e1: "effects ?st1 = effects st @ es1"
      "\<forall>b. RegisterPlatformAccessories b \<notin> set es1"
    using updateExisting_registry[of cfg i0 dev st] by blast
  have "forDevices e cfg (dev # devs) st = (None, st')" using step r(1) by simp
  moreover have "effects st' = effects st @ (es1 @ es)" using r(2) e1(1) by simp
  moreover have "\<forall>b. RegisterPlatformAccessories b \<notin> set (es1 @ es)" using r(3) e1(2) by simp
  moreover have "newDevices st' = newDevices st"
    using r(4) by (simp add: updateExisting_newDevices)
  moreover have "length (accessories st') = length ?accs" using r(5) len1 by simp
  moreover have "\<forall>i<length ?accs. accessories st' ! i =
              (if \<exists>d\<in>set (dev # devs). findIndex (?P d) ?accs = Some i
               then (?accs ! i)\<lparr>restartsSinceSeen := 0\<rparr>
               else ?accs ! i)"
    using r(6) f0 by (auto simp: len1 fi nth1)
  ultimately show ?case by blast
qed

lemma reconcile_no_error:
  "forDevices e cfg devs st = (None, st') \<Longrightarrow> reconcile e cfg devs st = st'"
  by (simp add: reconcile_def)

lemma reconcile_converged:
  assumes "\<forall>dev\<in>set devs. \<exists>i.
             findIndex (\<lambda>a. UUID a = uuidGenerate e (uniqueId dev)) (accessories st) = Some i
             \<and> cachedIPAddress (accessories st ! i) = ipAddress dev"
  shows "newDevices (reconcile e cfg devs st) = newDevices st"
    and "\<forall>b. RegisterPlatformAccessories b \<notin> set (emitted st (reconcile e cfg devs st))"
    and "length (accessories (reconcile e cfg devs st)) = length (accessories st)"
    and "\<forall>i<length (accessories st).
            accessories (reconcile e cfg devs st) ! i =
              (if \<exists>dev\<in>set devs.
                    findIndex (\<lambda>a. UUID a = uuidGenerate e (uniqueId dev)) (accessories st)
                      = Some i
               then (accessories st ! i)\<lparr>restartsSinceSeen := 0\<rparr>
               else accessories st ! i)"
    and "map UUID (accessories (reconcile e cfg devs st)) = map UUID (accessories st)"
    and "map cachedIPAddress (accessories (reconcile e cfg devs st))
           = map cachedIPAddress (accessories st)"
proof -
  let ?P = "\<lambda>d a. UUID a = uuidGenerate e (uniqueId d)"
  from forDevices_converged[OF assms, of cfg] obtain st' es where
    r: "forDevices e cfg devs st = (None, st')"
       "effects st' = effects st @ es"
       "\<forall>b. RegisterPlatformAccessories b \<notin> set es"
       "newDevices st' = newDevices st"
       "length (accessories st') = length (accessories st)"
       "\<forall>i<length (accessories st). accessories st' ! i =
              (if \<exists>d\<in>set devs. findIndex (?P d) (accessories st) = Some i
               then (accessories st ! i)\<lparr>restartsSinceSeen := 0\<rparr>
               else accessories st ! i)"
    by blast
  have eq: "reconcile e cfg devs st = st'" by (rule reconcile_no_error[OF r(1)])
  show "newDevices (reconcile e cfg devs st) = newDevices st" using r(4) eq by simp
  show "\<forall>b. RegisterPlatformAccessories b \<notin> set (emitted st (reconcile e cfg devs st))"
    using emitted_append[OF r(2)] r(3) eq by simp
  show "length (accessories (reconcile e cfg devs st)) = length (accessories st)"
    using r(5) eq by simp
  show "\<forall>i<length (accessories st).
            accessories (reconcile e cfg devs st) ! i =
              (if \<exists>dev\<in>set devs. findIndex (?P dev) (accessories st) = Some i
               then (accessories st ! i)\<lparr>restartsSinceSeen := 0\<rparr>
               else accessories st ! i)"
    using r(6) eq by simp
  show "map UUID (accessories (reconcile e cfg devs st)) = map UUID (accessories st)"
    unfolding eq using r(5,6) by (auto simp: list_eq_iff_nth_eq)
  show "map cachedIPAddress (accessories (reconcile e cfg devs st))
           = map cachedIPAddress (accessories st)"
    unfolding eq using r(5,6) by (auto simp: list_eq_iff_nth_eq)
qed

lemma forDevices_length:
  "length (accessories st) \<le> length (accessories (snd (forDevices e cfg devs st)))"
proof (induction devs arbitrary: st)
  case Nil
  then show ?case by simp
next
  case (Cons dev devs)
  show ?case
  proof (cases "processDevice e cfg dev st")
    case (Inl err)
    then show ?thesis by simp
  next
    case (Inr st1)
    then have "length (accessories st) \<le> length (accessories st1)"
      by (cases rule: processDevice_Inr_cases) (simp_all add: updateExisting_accessories)
    with Cons.IH[of st1] Inr show ?thesis by simp
  qed
qed

lemma reconcile_length:
  "length (accessories st) \<le> length (accessories (reconcile e cfg devs st))"
  using forDevices_length[of st e cfg devs]
  by (cases "forDevices e cfg devs st"; cases "fst (forDevices e cfg devs st)")
     (auto simp: reconcile_def emit_def)

text \<open>
  What one normal turn of the loop body adds to the trace: a registration only for a
  device whose uuid no accessory carried.
\<close>

lemma processDevice_effects:
  assumes "processDevice e cfg dev st = Inr st1"
  shows "\<exists>es. effects st1 = effects st @ es
           \<and> (\<forall>b. RegisterPlatformAccessories b \<in> set es \<longrightarrow>
                  UUID b = uuidGenerate e (uniqueId dev)
                  \<and> findIndex (\<lambda>a. UUID a = uuidGenerate e (uniqueId dev)) (accessories st)
                      = None)"
proof (cases "findIndex (\<lambda>a. UUID a = uuidGenerate e (uniqueId dev)) (accessories st)")
  case (Some i)
  with assms have "st1 = updateExisting cfg i dev st" by (simp add: processDevice_def)
  then show ?thesis using updateExisting_registry[of cfg i dev st] by auto
next
  case None
  with assms have r: "registerNew e cfg (uuidGenerate e (uniqueId dev)) dev st = Inr st1"
    by (simp add: processDevice_def)
  show ?thesis
  proof (cases "isAllowed cfg (uniqueId dev)")
    case False
    with r show ?thesis
      by (auto simp: registerNew_def Let_def emit_def split: sum.splits)
  next
    case True
    with r None show ?thesis
      by (auto simp: registerNew_def Let_def emit_def split: sum.splits)
  qed
qed

text \<open>A turn for a device that is not matched to position \<open>i\<close> leaves that position alone.\<close>

lemma processDevice_other_position:
  assumes "processDevice e cfg dev st = Inr st1"
    and "i < length (accessories st)"
    and "findIndex (\<lambda>a. UUID a = uuidGenerate e (uniqueId dev)) (accessories st) \<noteq> Some i"
  shows "accessories st1 ! i = accessories st ! i"
  using assms(1)
proof (cases rule: processDevice_Inr_cases)
  case (existing i0)
  with assms(3) have "i0 \<noteq> i" by auto
  then show ?thesis by (simp add: existing(2) updateExisting_accessories)
next
  case refused
  then show ?thesis by simp
next
  case (registered acc)
  then show ?thesis using assms(2) by (simp add: nth_append)
qed

text \<open>A turn keeps the uuids of the accessories it found, and what \<open>find\<close> says of them.\<close>

lemma processDevice_keeps_uuids:
  assumes "processDevice e cfg dev st = Inr st1"
  shows "length (accessories st) \<le> length (accessories st1)"
    and "k < length (accessories st) \<Longrightarrow> UUID (accessories st1 ! k) = UUID (accessories st ! k)"
    and "k < length (accessories st) \<Longrightarrow>
           findIndex (\<lambda>a. UUID a = u) (accessories st1) = Some k
             \<longleftrightarrow> findIndex (\<lambda>a. UUID a = u) (accessories st) = Some k"
proof -
  from assms have "length (accessories st) \<le> length (accessories st1)
    \<and> (k < length (accessories st) \<longrightarrow>
          UUID (accessories st1 ! k) = UUID (accessories st ! k)
          \<and> (findIndex (\<lambda>a. UUID a = u) (accessories st1) = Some k
               \<longleftrightarrow> findIndex (\<lambda>a. UUID a = u) (accessories st) = Some k))"
  proof (cases rule: processDevice_Inr_cases)
    case (existing i0)
    have i0: "i0 < length (accessories st)" using findIndex_Some[OF existing(1)] by simp
    have acc1: "accessories st1 = (accessories st)[i0 := markSeen dev (accessories st ! i0)]"
      using existing(2) by (simp add: updateExisting_accessories)
    have uu: "map UUID (accessories st1) = map UUID (accessories st)"
      using i0 by (simp add: acc1 map_update list_update_same_conv)
    have "findIndex (\<lambda>a. UUID a = u) (accessories st1)
            = findIndex (\<lambda>a. UUID a = u) (accessories st)"
      by (rule findIndex_UUID_cong[OF uu])
    then show ?thesis using i0 by (auto simp: acc1 nth_list_update)
  next
    case refused
    then show ?thesis by simp
  next
    case (registered acc)
    then show ?thesis by (auto simp: nth_append findIndex_snoc_below)
  qed
  then show "length (accessories st) \<le> length (accessories st1)"
    and "k < length (accessories st) \<Longrightarrow> UUID (accessories st1 ! k) = UUID (accessories st ! k)"
    and "k < length (accessories st) \<Longrightarrow>
           findIndex (\<lambda>a. UUID a = u) (accessories st1) = Some k
             \<longleftrightarrow> findIndex (\<lambda>a. UUID a = u) (accessories st) = Some k"
    by simp_all
qed

text \<open>
  Over a whole loop that ends without an exception, every registration is for a uuid
  that no accessory present at the start carries.
\<close>

lemma forDevices_registers:
  assumes "forDevices e cfg devs st = (None, st')"
  shows "\<exists>es. effects st' = effects st @ es
           \<and> (\<forall>b. RegisterPlatformAccessories b \<in> set es \<longrightarrow>
                  (\<forall>k<length (accessories st). UUID b \<noteq> UUID (accessories st ! k)))"
  using assms
proof (induction devs arbitrary: st)
  case Nil
  then show ?case by simp
next
  case (Cons dev devs)
  from Cons.prems obtain st1 where
    step: "processDevice e cfg dev st = Inr st1" and rest: "forDevices e cfg devs st1 = (None, st')"
    by (auto split: sum.splits)
  from processDevice_effects[OF step] obtain es1 where
    e1: "effects st1 = effects st @ es1"
    and r1: "\<forall>b. RegisterPlatformAccessories b \<in> set es1 \<longrightarrow>
                  UUID b = uuidGenerate e (uniqueId dev)
                  \<and> findIndex (\<lambda>a. UUID a = uuidGenerate e (uniqueId dev)) (accessories st)
                      = None"
    by blast
  from Cons.IH[OF rest] obtain es2 where
    e2: "effects st' = effects st1 @ es2"
    and r2: "\<forall>b. RegisterPlatformAccessories b \<in> set es2 \<longrightarrow>
                  (\<forall>k<length (accessories st1). UUID b \<noteq> UUID (accessories st1 ! k))"
    by blast
  have "effects st' = effects st @ (es1 @ es2)" using e1 e2 by simp
  moreover have "\<forall>b. RegisterPlatformAccessories b \<in> set (es1 @ es2) \<longrightarrow>
                  (\<forall>k<length (accessories st). UUID b \<noteq> UUID (accessories st ! k))"
  proof (intro allI impI)
    fix b k
    assume b: "RegisterPlatformAccessories b \<in> set (es1 @ es2)"
      and k: "k < length (accessories st)"
    show "UUID b \<noteq> UUID (accessories st ! k)"
    proof (cases "RegisterPlatformAccessories b \<in> set es1")
      case True
      with r1 have "UUID b = uuidGenerate e (uniqueId dev)"
        and "findIndex (\<lambda>a. UUID a = uuidGenerate e (uniqueId dev)) (accessories st) = None"
        by auto
      then show ?thesis using k by (auto simp: findIndex_None)
    next
      case False
      with b have "RegisterPlatformAccessories b \<in> set es2" by simp
      moreover have "k < length (accessories st1)"
        using k processDevice_keeps_uuids(1)[OF step] by simp
      ultimately have "UUID b \<noteq> UUID (accessories st1 ! k)" using r2 by blast
      then show ?thesis using processDevice_keeps_uuids(2)[OF step k] by simp
    qed
  qed
  ultimately show ?case by blast
qed

text \<open>
  Nor does any accessory appended by such a loop carry the uuid of one present at the
  start.
\<close>

lemma forDevices_fresh:
  assumes "forDevices e cfg devs st = (None, st')"
    and "length (accessories st) \<le> j" and "j < length (accessories st')"
    and "k < length (accessories st)"
  shows "UUID (accessories st' ! j) \<noteq> UUID (accessories st ! k)"
  using assms
proof (induction devs arbitrary: st)
  case Nil
  then show ?case by simp
next
  case (Cons dev devs)
  from Cons.prems(1) obtain st1 where
    step: "processDevice e cfg dev st = Inr st1" and rest: "forDevices e cfg devs st1 = (None, st')"
    by (auto split: sum.splits)
  have k1: "k < length (accessories st1)"
    using Cons.prems(4) processDevice_keeps_uuids(1)[OF step] by simp
  have uk: "UUID (accessories st1 ! k) = UUID (accessories st ! k)"
    by (rule processDevice_keeps_uuids(2)[OF step Cons.prems(4)])
  show ?case
  proof (cases "length (accessories st1) \<le> j")
    case True
    from Cons.IH[OF rest True Cons.prems(3) k1] uk show ?thesis by simp
  next
    case False
    then have j1: "j < length (accessories st1)" by simp
    from step have "UUID (accessories st1 ! j) \<noteq> UUID (accessories st ! k)"
    proof (cases rule: processDevice_Inr_cases)
      case (existing i0)
      then show ?thesis using j1 Cons.prems(2) by (simp add: updateExisting_accessories)
    next
      case refused
      then show ?thesis using j1 Cons.prems(2) by simp
    next
      case (registered acc)
      with j1 Cons.prems(2) have "j = length (accessories st)" by simp
      then have "accessories st1 ! j = acc" by (simp add: registered(2))
      then show ?thesis
        using registered(1,3) Cons.prems(4) by (auto simp: findIndex_None)
    qed
    moreover have "UUID (accessories st' ! j) = UUID (accessories st1 ! j)"
      using forDevices_counters[OF rest] j1 by simp
    ultimately show ?thesis by simp
  qed
qed

lemma driftLog_same_address:
  "ipAddress d = ipAddress dev \<Longrightarrow> driftLog d a = driftLog dev a"
  by (simp add: driftLog_def)

text \<open>
  Over a whole loop that ends without an exception, when every device matched to an
  accessory reports one address and that address is not the cached one, the trace holds
  the four warnings of the drift, with the address cached at the start.
\<close>

lemma forDevices_drift_warning:
  assumes "forDevices e cfg devs st = (None, st')"
    and "dev \<in> set devs"
    and "findIndex (\<lambda>a. UUID a = uuidGenerate e (uniqueId dev)) (accessories st) = Some i"
    and "\<forall>d\<in>set devs.
           findIndex (\<lambda>a. UUID a = uuidGenerate e (uniqueId d)) (accessories st) = Some i
             \<longrightarrow> ipAddress d = ipAddress dev"
    and "cachedIPAddress (accessories st ! i) \<noteq> ipAddress dev"
  shows "\<exists>es. effects st' = effects st @ es
           \<and> set (driftLog dev (accessories st ! i)) \<subseteq> set es"
  using assms
proof (induction devs arbitrary: st)
  case Nil
  then show ?case by simp
next
  case (Cons dev0 devs)
  let ?P = "\<lambda>d a. UUID a = uuidGenerate e (uniqueId d)"
  from Cons.prems(1) obtain st1 where
    step: "processDevice e cfg dev0 st = Inr st1"
    and rest: "forDevices e cfg devs st1 = (None, st')"
    by (auto split: sum.splits)
  have i: "i < length (accessories st)" using findIndex_Some[OF Cons.prems(3)] by simp
  show ?case
  proof (cases "findIndex (?P dev0) (accessories st) = Some i")
    case True
    with Cons.prems(4) have ip: "ipAddress dev0 = ipAddress dev" by simp
    from step True have st1: "st1 = updateExisting cfg i dev0 st"
      by (simp add: processDevice_def)
    from forDevices_registers[OF rest] obtain es2 where
      e2: "effects st' = effects st1 @ es2" by blast
    have "\<exists>es1. effects st1 = effects st @ driftLog dev (accessories st ! i) @ es1"
      using driftLog_same_address[OF ip]
      by (simp add: st1 updateExisting_effects)
    then obtain es1 where
      e1: "effects st1 = effects st @ driftLog dev (accessories st ! i) @ es1" by blast
    have "effects st' = effects st @ (driftLog dev (accessories st ! i) @ es1 @ es2)"
      using e1 e2 by simp
    moreover have "set (driftLog dev (accessories st ! i))
                     \<subseteq> set (driftLog dev (accessories st ! i) @ es1 @ es2)"
      by auto
    ultimately show ?thesis by blast
  next
    case False
    with Cons.prems(2,3) have mem: "dev \<in> set devs" by auto
    have same: "accessories st1 ! i = accessories st ! i"
      by (rule processDevice_other_position[OF step i False])
    have f1: "findIndex (?P dev) (accessories st1) = Some i"
      using processDevice_keeps_uuids(3)[OF step i] Cons.prems(3) by simp
    have h1: "\<forall>d\<in>set devs. findIndex (?P d) (accessories st1) = Some i
                \<longrightarrow> ipAddress d = ipAddress dev"
      using processDevice_keeps_uuids(3)[OF step i] Cons.prems(4) by simp
    have c1: "cachedIPAddress (accessories st1 ! i) \<noteq> ipAddress dev"
      using Cons.prems(5) same by simp
    from Cons.IH[OF rest mem f1 h1 c1] obtain es2 where
      e2: "effects st' = effects st1 @ es2"
      and d2: "set (driftLog dev (accessories st1 ! i)) \<subseteq> set es2"
      by blast
    from processDevice_effects[OF step] obtain es1 where
      e1: "effects st1 = effects st @ es1" by blast
    have "effects st' = effects st @ (es1 @ es2)" using e1 e2 by simp
    moreover have "set (driftLog dev (accessories st ! i)) \<subseteq> set (es1 @ es2)"
      using d2 same by auto
    ultimately show ?thesis by blast
  qed
qed

subsection \<open>The whole method\<close>

lemma restoreCache_accessories:
  "accessories (restoreCache cached st) =
     accessories st @ map (\<lambda>a. a\<lparr>restartsSinceSeen := restartsSinceSeen a + 1\<rparr>) cached"
  unfolding restoreCache_def
  by (induction cached arbitrary: st) (simp_all add: configureAccessory_def)

lemma launch_accessories:
  "accessories (launch cached) =
     map (\<lambda>a. a\<lparr>restartsSinceSeen := restartsSinceSeen a + 1\<rparr>) cached"
  by (simp add: launch_def emit_def restoreCache_accessories initialPlatform_def)

lemma discoverDevices_accessories:
  assumes "scanPhase e (beforeScan st0) = Inr (devs, st1)"
  shows "accessories (snd (discoverDevices e cfg st0)) = accessories (reconcile e cfg devs st1)"
proof -
  let ?r = "reconcile e cfg devs st1"
  have "accessories (snd (pruneSweep cfg ?r)) = accessories ?r"
    by (simp add: pruneSweep_def forAccessories_accessories)
  then show ?thesis
    using assms
    by (cases "pruneSweep cfg ?r"; cases "fst (pruneSweep cfg ?r)")
       (auto simp: discoverDevices_def emit_def)
qed

lemma discoverDevices_after_scan:
  assumes "scanPhase e (beforeScan st0) = Inr (devs, st1)"
  shows "fst (discoverDevices e cfg st0) = fst (pruneSweep cfg (reconcile e cfg devs st1))"
  using assms
  by (cases "pruneSweep cfg (reconcile e cfg devs st1)";
      cases "fst (pruneSweep cfg (reconcile e cfg devs st1))")
     (auto simp: discoverDevices_def)

subsection \<open>Facts about the concrete inputs\<close>

lemma not_marked_lamp [simp]: "\<not> markedForDeletion (lampUnseen n)"
  by (simp add: markedForDeletion_def toLowerCase_def toLowerChar_def lamp_def lampUnseen_def)

lemma marked_lampToDelete [simp]: "markedForDeletion lampToDelete"
  by (simp add: markedForDeletion_def toLowerCase_def toLowerChar_def lamp_def
      lampToDelete_def)

lemmas concrete_defs =
  quietScanEnv_def flakyScanEnv_def flakyEnv_def quietEnv_def bulbA_def bulbB_def lampB_def
  lampC_def lamp_def keepAllConfig_def keepAll_def initialPlatform_def holding_def

lemmas run_defs =
  startup_def launch_def discoverDevices_def beforeScan_def restoreCache_def
  configureAccessory_def scanPhase_def scanWhile.simps reconcile_def processDevice_def
  registerNew_def updateExisting_def markSeen_def driftLog_def pruneSweep_def pruneStep_def
  unseenCheck_def emit_def isAllowed_def isAllowedTry_def isAllowedLog_def
  markedForDeletion_def toLowerCase_def toLowerChar_def Let_def

subsection \<open>Error handling in the device loop\<close>

text \<open>
  C1 (as amended).  An error raised while one discovered device is processed is caught by
  the \<open>try\<close> around the whole loop and logged at error level.  The devices before the
  failing one keep their effects; the loop is left, so the devices after it are not
  processed in this run, whatever they are.  The method goes on to the pruning sweep
  from the state reached before the failure, and ends normally when the pruning section
  is present.
\<close>

theorem reconcile_stops_at_first_error:
  assumes "scanPhase e (beforeScan st0) = Inr (pre @ dev # post, st)"
    and "forDevices e cfg pre st = (None, st1)"
    and "processDevice e cfg dev st1 = Inl err"
  shows "reconcile e cfg (pre @ dev # post) st = emit [LogError err] st1
     \<and> fst (discoverDevices e cfg st0) = fst (pruneSweep cfg (emit [LogError err] st1))
     \<and> accessories (snd (discoverDevices e cfg st0)) = accessories st1
     \<and> (pruning cfg \<noteq> None \<longrightarrow> fst (discoverDevices e cfg st0) = None)"
proof -
  have r: "reconcile e cfg (pre @ dev # post) st = emit [LogError err] st1"
    using assms(2,3) by (simp add: reconcile_def forDevices_append)
  have f: "fst (discoverDevices e cfg st0) = fst (pruneSweep cfg (emit [LogError err] st1))"
    using discoverDevices_after_scan[OF assms(1), of cfg] r by simp
  have a: "accessories (snd (discoverDevices e cfg st0)) = accessories st1"
    using discoverDevices_accessories[OF assms(1), of cfg] r by (simp add: emit_def)
  have n: "fst (discoverDevices e cfg st0) = None" if "pruning cfg \<noteq> None"
  proof -
    from that obtain p where "pruning cfg = Some p" by auto
    from pruneSweep_present(1)[OF this] f show ?thesis by simp
  qed
  show ?thesis using r f a n by simp
qed

text \<open>
  The witness: the scan finds two bulbs, the state query of the first times out; the
  run ends normally with the one cached accessory and no new one.
\<close>

theorem reconcile_stops_at_first_error_witness:
  "reconcile flakyScanEnv keepAllConfig ([] @ bulbA # [bulbB])
       (emit [LogInfo (FoundDevices 2)] ((beforeScan (launch [lampB]))\<lparr>scanCalls := 1\<rparr>))
     = emit [LogError (CollaboratorError ''timeout'')]
         (emit [LogInfo (FoundDevices 2)] ((beforeScan (launch [lampB]))\<lparr>scanCalls := 1\<rparr>))
   \<and> fst (discoverDevices flakyScanEnv keepAllConfig (launch [lampB])) = None
   \<and> map UUID (accessories (snd (discoverDevices flakyScanEnv keepAllConfig (launch [lampB]))))
       = [''uuid-B2'']"
proof -
  let ?st = "emit [LogInfo (FoundDevices 2)]
               ((beforeScan (launch [lampB]))\<lparr>scanCalls := 1\<rparr>)"
  have h1: "scanPhase flakyScanEnv (beforeScan (launch [lampB]))
              = Inr ([] @ bulbA # [bulbB], ?st)"
    by (simp add: scanPhase_def scanWhile.simps flakyScanEnv_def flakyEnv_def quietEnv_def
        beforeScan_def launch_def restoreCache_def configureAccessory_def initialPlatform_def
        emit_def)
  have h2: "forDevices flakyScanEnv keepAllConfig [] ?st = (None, ?st)" by simp
  have h3: "processDevice flakyScanEnv keepAllConfig bulbA ?st
              = Inl (CollaboratorError ''timeout'')"
    by (simp add: processDevice_def registerNew_def flakyScanEnv_def flakyEnv_def quietEnv_def
        bulbA_def lampB_def beforeScan_def launch_def restoreCache_def configureAccessory_def
        initialPlatform_def emit_def)
  have p: "pruning keepAllConfig \<noteq> None" by (simp add: keepAllConfig_def)
  have u: "map UUID (accessories ?st) = [''uuid-B2'']"
    by (simp add: beforeScan_def emit_def launch_accessories lampB_def)
  note t = reconcile_stops_at_first_error[OF h1 h2 h3]
  from t have r: "reconcile flakyScanEnv keepAllConfig ([] @ bulbA # [bulbB]) ?st
                    = emit [LogError (CollaboratorError ''timeout'')] ?st"
    by blast
  from t p have n: "fst (discoverDevices flakyScanEnv keepAllConfig (launch [lampB])) = None"
    by blast
  from t have "accessories (snd (discoverDevices flakyScanEnv keepAllConfig (launch [lampB])))
                 = accessories ?st"
    by blast
  with u have a: "map UUID
        (accessories (snd (discoverDevices flakyScanEnv keepAllConfig (launch [lampB]))))
       = [''uuid-B2'']"
    by simp
  show ?thesis using r n a by blast
qed

text \<open>
  The claim as stated fails: behind a bulb whose state query times out, a second bulb is
  not registered, although the same run without the first bulb registers it.
\<close>

theorem later_device_skipped_counterexample:
  "accessories (reconcile flakyEnv bareConfig [bulbA, bulbB] initialPlatform) = []
   \<and> map UUID (accessories (reconcile flakyEnv bareConfig [bulbB] initialPlatform))
       = [''uuid-B2'']"
  by (simp add: reconcile_def processDevice_def registerNew_def flakyEnv_def quietEnv_def
      bulbA_def bulbB_def initialPlatform_def emit_def isAllowed_def isAllowedTry_def
      isAllowedLog_def bareConfig_def Let_def)

subsection \<open>The number of scans\<close>

text \<open>
  C2 (as amended).  If every discovery scan returns an empty list, lines 78 to 90 call
  \<open>discover.scan\<close> exactly six times: the scan of line 78 and then exactly five rescans
  in the \<open>while\<close> loop, one warning each.  The phase ends normally with an empty device
  list.
\<close>

theorem scan_phase_all_empty:
  assumes "\<forall>n. scan e n = Inr []"
  shows "scanPhase e st =
    Inr ([], st\<lparr>effects := effects st
                    @ [LogWarn (ScanFoundZero 1), LogWarn (ScanFoundZero 2),
                       LogWarn (ScanFoundZero 3), LogWarn (ScanFoundZero 4),
                       LogWarn (ScanFoundZero 5), LogWarn FoundZeroDevices],
                scanCalls := scanCalls st + 6\<rparr>)"
proof -
  have "[0..<5] = [0, 1, 2, 3, 4::nat]" by (simp add: upt_rec)
  then show ?thesis
    using assms scanWhile_all_empty[OF assms, of 0]
    by (simp add: scanPhase_def emit_def)
qed

theorem scan_phase_all_empty_witness:
  "scanPhase quietEnv initialPlatform =
    Inr ([], initialPlatform\<lparr>effects := effects initialPlatform
                    @ [LogWarn (ScanFoundZero 1), LogWarn (ScanFoundZero 2),
                       LogWarn (ScanFoundZero 3), LogWarn (ScanFoundZero 4),
                       LogWarn (ScanFoundZero 5), LogWarn FoundZeroDevices],
                scanCalls := scanCalls initialPlatform + 6\<rparr>)"
  using scan_phase_all_empty[of quietEnv initialPlatform] by (simp add: quietEnv_def)

text \<open>The claim as stated, five attempts, fails: the phase never ends after five calls.\<close>

theorem scan_phase_five_attempts_counterexample:
  "\<not> (\<exists>st'. scanPhase quietEnv initialPlatform = Inr ([], st') \<and> scanCalls st' = 5)"
  by (simp add: scanPhase_def scanWhile.simps quietEnv_def initialPlatform_def emit_def)

subsection \<open>The allow list\<close>

text \<open>
  C3 (as amended).  \<open>isAllowed\<close> is the policy of section 4.3: with the list or the mode
  absent, or the whole section absent, every identifier is allowed; otherwise an
  identifier is refused when the mode contains \<open>blacklist\<close> and the list holds it, or
  when the mode contains \<open>whitelist\<close> and the list does not hold it, and allowed in
  every other case.  The two tests are independent, so a mode that contains both words
  refuses every identifier.
\<close>

theorem isAllowed_refines_policy:
  "isAllowed (cfg\<lparr>deviceManagement := Some (allowListConfig ids mode)\<rparr>) uid
     = isAllowedSpec ids mode uid
   \<and> isAllowed (cfg\<lparr>deviceManagement := None\<rparr>) uid"
  by (cases ids; cases mode)
     (auto simp: isAllowed_def isAllowedTry_def isAllowedSpec_def allowListConfig_def)

text \<open>
  The claim as stated fails for the mode \<open>blacklist,whitelist\<close>: the mode contains
  \<open>blacklist\<close>, the identifier is not in the list, and it is refused all the same.
\<close>

theorem isAllowed_both_modes_counterexample:
  "includesStr ''blacklist,whitelist'' ''blacklist''
   \<and> ''B2'' \<notin> set [''A1'']
   \<and> \<not> isAllowed bothModesConfig ''B2''"
  by (simp add: bothModesConfig_def allowListConfig_def isAllowed_def isAllowedTry_def)

subsection \<open>What the sweep unregisters\<close>

text \<open>
  C4 (as amended).  With the pruning section present the sweep ends normally and leaves
  the list of accessories as it is.  An accessory of the list whose name does not
  contain \<open>delete\<close> is unregistered by the sweep if and only if
  \<open>pruneAllAccessoriesNextRestart\<close> is true, or \<open>pruneMissingCachedAccessories\<close> is true
  and \<open>restartsSinceSeen\<close> has reached \<open>restartsBeforeMissingAccessoriesPruned\<close>, or it
  was not seen (\<open>restartsSinceSeen > 0\<close>) and the allow list refuses its identifier.  It
  is updated if and only if none of these holds and \<open>restartsSinceSeen > 0\<close>.  So an
  allowed accessory with a counter of threshold minus one, at least 1, is retained and
  updated unless everything is pruned, and one at the threshold is unregistered when
  \<open>pruneMissingCachedAccessories\<close> is true.
\<close>

theorem sweep_unregisters_iff:
  assumes "pruning cfg = Some p"
    and "a \<in> set (accessories st)"
    and "\<not> markedForDeletion a"
  shows "fst (pruneSweep cfg st) = None
     \<and> accessories (snd (pruneSweep cfg st)) = accessories st
     \<and> (UnregisterPlatformAccessories a \<in> set (emitted st (snd (pruneSweep cfg st))) \<longleftrightarrow>
          retentionRuleFires p a \<or> unseenAndRefused cfg a)
     \<and> (UpdatePlatformAccessories a \<in> set (emitted st (snd (pruneSweep cfg st))) \<longleftrightarrow>
          \<not> retentionRuleFires p a \<and> restartsSinceSeen a > 0
          \<and> isAllowed cfg (uniqueId (device a)))"
  using pruneSweep_present(1)[OF assms(1), of st] pruneSweep_present(2)[OF assms(1), of st]
    pruneSweep_present(3)[OF assms(1), of a st] pruneSweep_present(4)[OF assms(1), of a st]
    assms(2,3)
  by simp

text \<open>
  The witness: threshold 3 with \<open>pruneMissingCachedAccessories\<close>; the lamp unseen twice
  is updated and kept, the lamp unseen three times is unregistered.
\<close>

theorem sweep_unregisters_iff_witness:
  "UpdatePlatformAccessories (lampUnseen 2)
     \<in> set (emitted (holding [lampUnseen 2, lampUnseen 3])
              (snd (pruneSweep (bareConfig\<lparr>pruning := Some pruneAfterThree\<rparr>)
                     (holding [lampUnseen 2, lampUnseen 3]))))
   \<and> UnregisterPlatformAccessories (lampUnseen 2)
     \<notin> set (emitted (holding [lampUnseen 2, lampUnseen 3])
              (snd (pruneSweep (bareConfig\<lparr>pruning := Some pruneAfterThree\<rparr>)
                     (holding [lampUnseen 2, lampUnseen 3]))))
   \<and> UnregisterPlatformAccessories (lampUnseen 3)
     \<in> set (emitted (holding [lampUnseen 2, lampUnseen 3])
              (snd (pruneSweep (bareConfig\<lparr>pruning := Some pruneAfterThree\<rparr>)
                     (holding [lampUnseen 2, lampUnseen 3]))))"
proof -
  let ?cfg = "bareConfig\<lparr>pruning := Some pruneAfterThree\<rparr>"
  let ?st = "holding [lampUnseen 2, lampUnseen 3]"
  have p: "pruning ?cfg = Some pruneAfterThree" by simp
  have m2: "lampUnseen 2 \<in> set (accessories ?st)"
    and m3: "lampUnseen 3 \<in> set (accessories ?st)"
    by (simp_all add: holding_def)
  have allowed: "isAllowed ?cfg uid" for uid
    by (simp add: isAllowed_def isAllowedTry_def bareConfig_def)
  show ?thesis
    using sweep_unregisters_iff[OF p m2 not_marked_lamp]
      sweep_unregisters_iff[OF p m3 not_marked_lamp] allowed
    by (simp add: pruneAfterThree_def lampUnseen_def)
qed

text \<open>
  The claim as stated fails: with both pruning flags false the retention rule does not
  fire, yet the sweep unregisters the unseen lamp, because its identifier is on the
  black list.
\<close>

theorem sweep_unregisters_refused_counterexample:
  "\<not> markedForDeletion (lampUnseen 1)
   \<and> \<not> retentionRuleFires keepAll (lampUnseen 1)
   \<and> pruning blacklistA1Config = Some keepAll
   \<and> UnregisterPlatformAccessories (lampUnseen 1)
       \<in> set (effects (snd (pruneSweep blacklistA1Config (holding [lampUnseen 1]))))"
  by (simp add: pruneSweep_def pruneStep_def unseenCheck_def emit_def holding_def
      initialPlatform_def blacklistA1Config_def keepAll_def allowListConfig_def
      isAllowed_def isAllowedTry_def isAllowedLog_def Let_def)
     (simp add: lampUnseen_def lamp_def)

text \<open>
  C5.  An accessory whose name contains \<open>delete\<close>, in any case of letters, is
  unregistered by its step of the sweep whatever the configuration and whatever its
  counter: the step is one \<open>unregisterPlatformAccessories\<close> call and one warning, it
  reads no pruning flag, updates nothing and counts nothing.  In a sweep with the
  pruning section present every such accessory of the list is unregistered.
\<close>

theorem marked_for_deletion_pruned:
  assumes "markedForDeletion a"
  shows "pruneStep cfg a st =
           Inr (emit [UnregisterPlatformAccessories a,
                      LogWarn (PrunedMarkedForDeletion (displayName a))] st)
     \<and> (a \<in> set (accessories st) \<and> pruning cfg \<noteq> None \<longrightarrow>
          UnregisterPlatformAccessories a \<in> set (emitted st (snd (pruneSweep cfg st))))"
proof (intro conjI impI)
  show "pruneStep cfg a st =
           Inr (emit [UnregisterPlatformAccessories a,
                      LogWarn (PrunedMarkedForDeletion (displayName a))] st)"
    using assms by (rule pruneStep_marked)
next
  assume h: "a \<in> set (accessories st) \<and> pruning cfg \<noteq> None"
  then obtain p where p: "pruning cfg = Some p" by auto
  show "UnregisterPlatformAccessories a \<in> set (emitted st (snd (pruneSweep cfg st)))"
    using pruneSweep_present(3)[OF p, of a st] h assms by simp
qed

text \<open>
  The witness: both flags false and the counter at 0, the lamp after one that is kept.
\<close>

theorem marked_for_deletion_pruned_witness:
  "markedForDeletion lampToDelete
   \<and> restartsSinceSeen lampToDelete = 0
   \<and> pruneStep (bareConfig\<lparr>pruning := Some keepAll\<rparr>) lampToDelete
         (holding [lamp, lampToDelete]) =
       Inr (emit [UnregisterPlatformAccessories lampToDelete,
                  LogWarn (PrunedMarkedForDeletion ''Desk Lamp DELETE'')]
              (holding [lamp, lampToDelete]))
   \<and> UnregisterPlatformAccessories lampToDelete
       \<in> set (emitted (holding [lamp, lampToDelete])
                (snd (pruneSweep (bareConfig\<lparr>pruning := Some keepAll\<rparr>)
                       (holding [lamp, lampToDelete]))))"
  using marked_for_deletion_pruned[of lampToDelete "bareConfig\<lparr>pruning := Some keepAll\<rparr>"
      "holding [lamp, lampToDelete]"]
  by (simp add: holding_def initialPlatform_def bareConfig_def)
     (simp add: lampToDelete_def lamp_def)

subsection \<open>Address drift\<close>

text \<open>
  One turn of the loop body.  When the uuid of a discovered device is found among the
  accessories, the turn ends normally, sets the counter of that accessory to 0 and its
  \<open>cachedIPAddress\<close> to the discovered address, in place: the list keeps its length and
  its uuids, nothing is registered and \<open>newDevices\<close> is unchanged.  If the addresses
  differ, four warnings are logged first, with the old and the new address; if they are
  equal, the address is unchanged and no such warning is logged.
\<close>

lemma processDevice_address_drift:
  assumes "findIndex (\<lambda>a. UUID a = uuidGenerate e (uniqueId dev)) (accessories st) = Some i"
  shows "case processDevice e cfg dev st of
           Inl err \<Rightarrow> False
         | Inr st' \<Rightarrow>
             accessories st' =
               (accessories st)[i := (accessories st ! i)
                  \<lparr>restartsSinceSeen := 0, cachedIPAddress := ipAddress dev\<rparr>]
             \<and> cachedIPAddress (accessories st' ! i) = ipAddress dev
             \<and> map UUID (accessories st') = map UUID (accessories st)
             \<and> newDevices st' = newDevices st
             \<and> (\<forall>b. RegisterPlatformAccessories b \<notin> set (emitted st st'))
             \<and> (if cachedIPAddress (accessories st ! i) \<noteq> ipAddress dev
                then take 4 (emitted st st') =
                       [LogWarn (IpDiscrepancy (displayName (accessories st ! i))),
                        LogWarn (ExpectedIp (cachedIPAddress (accessories st ! i))),
                        LogWarn (DiscoveredIp (ipAddress dev)),
                        LogWarn (IpReassigned (ipAddress dev))]
                else accessories st' ! i = (accessories st ! i)\<lparr>restartsSinceSeen := 0\<rparr>
                     \<and> (\<forall>m. LogWarn (ExpectedIp m) \<notin> set (emitted st st')))"
proof -
  let ?st' = "updateExisting cfg i dev st"
  let ?a = "accessories st ! i"
  have i: "i < length (accessories st)" using findIndex_Some[OF assms] by simp
  have p: "processDevice e cfg dev st = Inr ?st'" by (rule processDevice_existing[OF assms])
  have acc: "accessories ?st' =
      (accessories st)[i := ?a\<lparr>restartsSinceSeen := 0, cachedIPAddress := ipAddress dev\<rparr>]"
    by (simp add: updateExisting_accessories markSeen_eq)
  have ip: "cachedIPAddress (accessories ?st' ! i) = ipAddress dev"
    using i by (simp add: acc)
  have uu: "map UUID (accessories ?st') = map UUID (accessories st)"
    using i by (simp add: acc map_update list_update_same_conv)
  have em: "emitted st ?st' = driftLog dev ?a
       @ isAllowedLog cfg (uniqueId (device ?a))
       @ (let a = markSeen dev ?a; uid = uniqueId (device a)
          in if \<not> isAllowed cfg uid
             then [LogWarn (WillBePruned (displayName a) uid), UnregisterPlatformAccessories a]
             else [LogInfo (RegisteringCached (displayName a) uid (cachedIPAddress a)),
                   UpdatePlatformAccessories a])"
    by (rule emitted_append) (simp add: updateExisting_effects)
  have noreg: "\<forall>b. RegisterPlatformAccessories b \<notin> set (emitted st ?st')"
    by (simp add: em Let_def)
  have drift: "cachedIPAddress ?a \<noteq> ipAddress dev \<Longrightarrow> take 4 (emitted st ?st') =
                       [LogWarn (IpDiscrepancy (displayName ?a)),
                        LogWarn (ExpectedIp (cachedIPAddress ?a)),
                        LogWarn (DiscoveredIp (ipAddress dev)),
                        LogWarn (IpReassigned (ipAddress dev))]"
    by (simp add: em driftLog_def)
  have same: "cachedIPAddress ?a = ipAddress dev \<Longrightarrow>
      accessories ?st' ! i = ?a\<lparr>restartsSinceSeen := 0\<rparr>
      \<and> (\<forall>m. LogWarn (ExpectedIp m) \<notin> set (emitted st ?st'))"
    using i by (auto simp: em acc driftLog_def Let_def isAllowedLog_def split: sum.splits)
  show ?thesis
    using acc ip uu noreg drift same
    by (simp add: p updateExisting_newDevices)
qed

lemma processDevice_address_drift_example:
  "(case processDevice quietEnv bareConfig movedBulbA (holding [lamp]) of
      Inl err \<Rightarrow> False
    | Inr st' \<Rightarrow>
        map cachedIPAddress (accessories st') = [''10.0.0.9'']
        \<and> map UUID (accessories st') = [''uuid-A1'']
        \<and> take 4 (emitted (holding [lamp]) st') =
            [LogWarn (IpDiscrepancy ''Desk Lamp''), LogWarn (ExpectedIp ''10.0.0.5''),
             LogWarn (DiscoveredIp ''10.0.0.9''), LogWarn (IpReassigned ''10.0.0.9'')])"
proof -
  have f: "findIndex (\<lambda>a. UUID a = uuidGenerate quietEnv (uniqueId movedBulbA))
             (accessories (holding [lamp])) = Some 0"
    by (simp add: holding_def lamp_def quietEnv_def movedBulbA_def)
  show ?thesis
    using processDevice_address_drift[OF f, of bareConfig]
    by (auto simp: holding_def lamp_def movedBulbA_def initialPlatform_def split: sum.splits)
qed

text \<open>
  C6 (as amended).  In a reconciliation whose device loop raises no error, let a
  discovered device be matched by \<open>Array.find\<close> on its uuid to a cached accessory, and
  let every discovered device of that identity report the same address (identifiers
  are unique per run).  After the loop the accessory holds the discovered address as
  its \<open>cachedIPAddress\<close> and keeps its place and uuid; no second accessory of that
  identity exists (every accessory with that uuid was in the list at the start, and no
  registration is made for it).  If the cached address differed, the four warnings of
  the drift are in the trace, with the old and the new address; if it was equal, it is
  unchanged.
\<close>

theorem reconcile_overwrites_drifted_address:
  assumes "fst (forDevices e cfg devs st) = None"
    and "dev \<in> set devs"
    and "findIndex (\<lambda>a. UUID a = uuidGenerate e (uniqueId dev)) (accessories st) = Some i"
    and "\<forall>d\<in>set devs. uuidGenerate e (uniqueId d) = uuidGenerate e (uniqueId dev)
           \<longrightarrow> ipAddress d = ipAddress dev"
  shows "cachedIPAddress (accessories (reconcile e cfg devs st) ! i) = ipAddress dev
    \<and> UUID (accessories (reconcile e cfg devs st) ! i) = UUID (accessories st ! i)
    \<and> (\<forall>j. j < length (accessories (reconcile e cfg devs st))
             \<and> UUID (accessories (reconcile e cfg devs st) ! j)
                 = uuidGenerate e (uniqueId dev)
           \<longrightarrow> j < length (accessories st)
               \<and> UUID (accessories st ! j) = uuidGenerate e (uniqueId dev))
    \<and> (\<forall>b. RegisterPlatformAccessories b \<in> set (emitted st (reconcile e cfg devs st))
           \<longrightarrow> UUID b \<noteq> uuidGenerate e (uniqueId dev))
    \<and> (cachedIPAddress (accessories st ! i) \<noteq> ipAddress dev \<longrightarrow>
          set [LogWarn (IpDiscrepancy (displayName (accessories st ! i))),
               LogWarn (ExpectedIp (cachedIPAddress (accessories st ! i))),
               LogWarn (DiscoveredIp (ipAddress dev)),
               LogWarn (IpReassigned (ipAddress dev))]
            \<subseteq> set (emitted st (reconcile e cfg devs st)))
    \<and> (cachedIPAddress (accessories st ! i) = ipAddress dev \<longrightarrow>
          cachedIPAddress (accessories (reconcile e cfg devs st) ! i)
            = cachedIPAddress (accessories st ! i))"
proof -
  let ?P = "\<lambda>d a. UUID a = uuidGenerate e (uniqueId d)"
  let ?u = "uuidGenerate e (uniqueId dev)"
  let ?fin = "reconcile e cfg devs st"
  obtain st' where f: "forDevices e cfg devs st = (None, st')"
    using assms(1) by (cases "forDevices e cfg devs st") simp
  have fin: "?fin = st'" by (rule reconcile_no_error[OF f])
  have i: "i < length (accessories st)" and ui: "UUID (accessories st ! i) = ?u"
    using findIndex_Some[OF assms(3)] by simp_all
  have h4: "\<forall>d\<in>set devs. findIndex (?P d) (accessories st) = Some i
              \<longrightarrow> ipAddress d = ipAddress dev"
  proof (intro ballI impI)
    fix d assume d: "d \<in> set devs" and m: "findIndex (?P d) (accessories st) = Some i"
    from findIndex_Some[OF m] ui have "uuidGenerate e (uniqueId d) = ?u" by simp
    with assms(4) d show "ipAddress d = ipAddress dev" by blast
  qed
  note inv = forDevices_counters[OF f]
  have len: "length (accessories st) \<le> length (accessories st')" using inv by simp
  have addr: "cachedIPAddress (accessories st' ! i) = ipAddress dev"
  proof -
    let ?m = "filter (\<lambda>d. findIndex (?P d) (accessories st) = Some i) devs"
    have ne: "?m \<noteq> []" using assms(2,3) by (auto simp: filter_empty_conv)
    then obtain d ds where m: "?m = d # ds" by (cases ?m) auto
    have "last ?m \<in> set ?m" using ne by (rule last_in_set)
    then have "ipAddress (last ?m) = ipAddress dev" using h4 by auto
    then show ?thesis using forDevices_address[OF f i] m by simp
  qed
  have uuid: "UUID (accessories st' ! i) = UUID (accessories st ! i)" using inv i by simp
  have once: "j < length (accessories st) \<and> UUID (accessories st ! j) = ?u"
    if "j < length (accessories st')" "UUID (accessories st' ! j) = ?u" for j
  proof (cases "j < length (accessories st)")
    case True
    with inv that(2) show ?thesis by simp
  next
    case False
    then have "length (accessories st) \<le> j" by simp
    from forDevices_fresh[OF f this that(1) i] that(2) ui show ?thesis by simp
  qed
  from forDevices_registers[OF f] obtain es where
    es: "effects st' = effects st @ es"
    and reg: "\<forall>b. RegisterPlatformAccessories b \<in> set es \<longrightarrow>
                  (\<forall>k<length (accessories st). UUID b \<noteq> UUID (accessories st ! k))"
    by blast
  have em: "emitted st st' = es" by (rule emitted_append[OF es])
  have noreg: "UUID b \<noteq> ?u" if "RegisterPlatformAccessories b \<in> set (emitted st st')" for b
  proof -
    from that have "RegisterPlatformAccessories b \<in> set es" by (simp add: em)
    with reg i have "UUID b \<noteq> UUID (accessories st ! i)" by blast
    with ui show ?thesis by simp
  qed
  have warn: "set [LogWarn (IpDiscrepancy (displayName (accessories st ! i))),
               LogWarn (ExpectedIp (cachedIPAddress (accessories st ! i))),
               LogWarn (DiscoveredIp (ipAddress dev)),
               LogWarn (IpReassigned (ipAddress dev))] \<subseteq> set (emitted st st')"
    if c: "cachedIPAddress (accessories st ! i) \<noteq> ipAddress dev"
  proof -
    from forDevices_drift_warning[OF f assms(2,3) h4 c] obtain es' where
      e': "effects st' = effects st @ es'"
      and d': "set (driftLog dev (accessories st ! i)) \<subseteq> set es'"
      by blast
    have "emitted st st' = es'" by (rule emitted_append[OF e'])
    with d' c show ?thesis by (simp add: driftLog_def)
  qed
  show ?thesis
    unfolding fin using addr uuid once noreg warn by auto
qed

text \<open>
  The witness: a new bulb first, then the bulb of the cached accessory at a new address.
\<close>

theorem reconcile_overwrites_drifted_address_witness:
  "cachedIPAddress (lampB) = ''10.0.0.8''
   \<and> cachedIPAddress
       (accessories (reconcile quietEnv keepAllConfig [bulbA, movedBulbB] (holding [lampB])) ! 0)
       = ''10.0.0.12''
   \<and> LogWarn (ExpectedIp ''10.0.0.8'')
       \<in> set (emitted (holding [lampB])
                (reconcile quietEnv keepAllConfig [bulbA, movedBulbB] (holding [lampB])))
   \<and> LogWarn (DiscoveredIp ''10.0.0.12'')
       \<in> set (emitted (holding [lampB])
                (reconcile quietEnv keepAllConfig [bulbA, movedBulbB] (holding [lampB])))"
proof -
  let ?st = "holding [lampB]"
  have h1: "fst (forDevices quietEnv keepAllConfig [bulbA, movedBulbB] ?st) = None"
    by (simp add: run_defs concrete_defs movedBulbB_def)
  have h2: "movedBulbB \<in> set [bulbA, movedBulbB]" by simp
  have h3: "findIndex (\<lambda>a. UUID a = uuidGenerate quietEnv (uniqueId movedBulbB))
              (accessories ?st) = Some 0"
    by (simp add: concrete_defs movedBulbB_def)
  have h4: "\<forall>d\<in>set [bulbA, movedBulbB].
              uuidGenerate quietEnv (uniqueId d) = uuidGenerate quietEnv (uniqueId movedBulbB)
                \<longrightarrow> ipAddress d = ipAddress movedBulbB"
    by (simp add: concrete_defs movedBulbB_def)
  have a: "accessories ?st ! 0 = lampB" by (simp add: holding_def)
  have c: "cachedIPAddress lampB = ''10.0.0.8''" by (simp add: lampB_def)
  have ip: "ipAddress movedBulbB = ''10.0.0.12''" by (simp add: movedBulbB_def)
  note t = reconcile_overwrites_drifted_address[OF h1 h2 h3 h4, unfolded a c ip]
  from t have t1: "cachedIPAddress
       (accessories (reconcile quietEnv keepAllConfig [bulbA, movedBulbB] ?st) ! 0)
       = ''10.0.0.12''"
    by blast
  from t have "set [LogWarn (IpDiscrepancy (displayName lampB)),
               LogWarn (ExpectedIp ''10.0.0.8''),
               LogWarn (DiscoveredIp ''10.0.0.12''),
               LogWarn (IpReassigned ''10.0.0.12'')]
            \<subseteq> set (emitted ?st (reconcile quietEnv keepAllConfig [bulbA, movedBulbB] ?st))"
    by simp
  then have t2: "LogWarn (ExpectedIp ''10.0.0.8'')
       \<in> set (emitted ?st (reconcile quietEnv keepAllConfig [bulbA, movedBulbB] ?st))"
    and t3: "LogWarn (DiscoveredIp ''10.0.0.12'')
       \<in> set (emitted ?st (reconcile quietEnv keepAllConfig [bulbA, movedBulbB] ?st))"
    by simp_all
  show ?thesis using c t1 t2 t3 by blast
qed

text \<open>
  The claim as stated fails when the loop is left early: the state query of a new bulb
  times out, and the cached accessory of the next bulb, which reports a new address,
  keeps the old one; no drift warning is logged.
\<close>

theorem drift_behind_failing_device_counterexample:
  "findIndex (\<lambda>a. UUID a = uuidGenerate flakyEnv (uniqueId movedBulbB))
     (accessories (holding [lampB])) = Some 0
   \<and> ipAddress movedBulbB \<noteq> cachedIPAddress lampB
   \<and> map cachedIPAddress
       (accessories (reconcile flakyEnv keepAllConfig [bulbA, movedBulbB] (holding [lampB])))
       = [''10.0.0.8'']
   \<and> LogWarn (DiscoveredIp ''10.0.0.12'')
       \<notin> set (effects (reconcile flakyEnv keepAllConfig [bulbA, movedBulbB] (holding [lampB])))"
  by (simp add: run_defs concrete_defs movedBulbB_def)

subsection \<open>The counter \<open>restartsSinceSeen\<close> over one start\<close>

text \<open>
  C7 (as amended).  Across one start whose device loop meets no error: every accessory
  restored from the cache has its counter incremented by exactly 1 by
  \<open>configureAccessory\<close> before the loop; at the end of the run a restored accessory has
  counter 0 if \<open>Array.find\<close> matched it to a discovered device and its incremented value
  otherwise, so its counter is 0 if and only if it was matched; every accessory appended
  by the run has counter 0 and the uuid of a discovered device.
\<close>

theorem restartsSinceSeen_zero_iff_seen:
  assumes "scanPhase e (beforeScan (launch cached)) = Inr (devs, st1)"
    and "fst (forDevices e cfg devs st1) = None"
  shows "accessories (launch cached) =
           map (\<lambda>a. a\<lparr>restartsSinceSeen := restartsSinceSeen a + 1\<rparr>) cached
    \<and> length cached \<le> length (accessories (snd (startup e cfg cached)))
    \<and> (\<forall>i<length cached.
          UUID (accessories (snd (startup e cfg cached)) ! i) = UUID (cached ! i)
          \<and> restartsSinceSeen (accessories (snd (startup e cfg cached)) ! i) =
              (if \<exists>dev\<in>set devs.
                    findIndex (\<lambda>a. UUID a = uuidGenerate e (uniqueId dev)) cached = Some i
               then 0 else restartsSinceSeen (cached ! i) + 1)
          \<and> (restartsSinceSeen (accessories (snd (startup e cfg cached)) ! i) = 0 \<longleftrightarrow>
               (\<exists>dev\<in>set devs.
                    findIndex (\<lambda>a. UUID a = uuidGenerate e (uniqueId dev)) cached = Some i)))
    \<and> (\<forall>i. length cached \<le> i \<and> i < length (accessories (snd (startup e cfg cached))) \<longrightarrow>
          restartsSinceSeen (accessories (snd (startup e cfg cached)) ! i) = 0
          \<and> (\<exists>dev\<in>set devs.
                UUID (accessories (snd (startup e cfg cached)) ! i)
                  = uuidGenerate e (uniqueId dev)))"
proof -
  let ?inc = "\<lambda>a. a\<lparr>restartsSinceSeen := restartsSinceSeen a + 1\<rparr>"
  let ?fin = "accessories (snd (startup e cfg cached))"
  have r: "accessories (launch cached) = map ?inc cached"
    by (rule launch_accessories)
  have a1: "accessories st1 = map ?inc cached"
    using scanPhase_accessories[OF assms(1)] r by (simp add: beforeScan_def emit_def)
  obtain st2 where f: "forDevices e cfg devs st1 = (None, st2)"
    using assms(2) by (cases "forDevices e cfg devs st1") simp
  have fin: "?fin = accessories st2"
    using discoverDevices_accessories[OF assms(1), of cfg] reconcile_no_error[OF f]
    by (simp add: startup_def)
  have uu: "map UUID (map ?inc cached) = map UUID cached" by simp
  have fi: "findIndex (\<lambda>a. UUID a = u) (map ?inc cached) = findIndex (\<lambda>a. UUID a = u) cached"
    for u by (rule findIndex_UUID_cong[OF uu])
  note inv = forDevices_counters[OF f, unfolded a1 fi, folded fin]
  have len: "length cached \<le> length ?fin" using inv by simp
  have old: "UUID (?fin ! i) = UUID (cached ! i)
          \<and> restartsSinceSeen (?fin ! i) =
              (if \<exists>dev\<in>set devs.
                    findIndex (\<lambda>a. UUID a = uuidGenerate e (uniqueId dev)) cached = Some i
               then 0 else restartsSinceSeen (cached ! i) + 1)"
    if "i < length cached" for i
    using inv that by simp
  have new: "restartsSinceSeen (?fin ! i) = 0
          \<and> (\<exists>dev\<in>set devs. UUID (?fin ! i) = uuidGenerate e (uniqueId dev))"
    if "length cached \<le> i" "i < length ?fin" for i
    using inv that by simp
  show ?thesis
    using r len old new by auto
qed

text \<open>
  The witness: two cached accessories, the scan finds the bulb of the first and a new
  bulb; the first ends at 0, the second at 1.
\<close>

theorem restartsSinceSeen_zero_iff_seen_witness:
  "restartsSinceSeen (accessories (snd (startup quietScanEnv keepAllConfig [lampB, lampC])) ! 0) = 0
   \<and> restartsSinceSeen (accessories (snd (startup quietScanEnv keepAllConfig [lampB, lampC])) ! 1)
       = 1"
proof -
  let ?st0 = "beforeScan (launch [lampB, lampC])"
  let ?st1 = "emit [LogInfo (FoundDevices 2)] (?st0\<lparr>scanCalls := 1\<rparr>)"
  have h1: "scanPhase quietScanEnv ?st0 = Inr ([bulbA, bulbB], ?st1)"
    by (simp add: scanPhase_def scanWhile.simps quietScanEnv_def beforeScan_def launch_def
        restoreCache_def configureAccessory_def initialPlatform_def emit_def)
  have h2: "fst (forDevices quietScanEnv keepAllConfig [bulbA, bulbB] ?st1) = None"
    by (simp add: run_defs concrete_defs)
  note t = restartsSinceSeen_zero_iff_seen[OF h1 h2]
  have t0: "restartsSinceSeen
              (accessories (snd (startup quietScanEnv keepAllConfig [lampB, lampC])) ! 0) =
              (if \<exists>dev\<in>set [bulbA, bulbB].
                    findIndex (\<lambda>a. UUID a = uuidGenerate quietScanEnv (uniqueId dev))
                      [lampB, lampC] = Some 0
               then 0 else restartsSinceSeen ([lampB, lampC] ! 0) + 1)"
    using t by simp
  have t1: "restartsSinceSeen
              (accessories (snd (startup quietScanEnv keepAllConfig [lampB, lampC])) ! 1) =
              (if \<exists>dev\<in>set [bulbA, bulbB].
                    findIndex (\<lambda>a. UUID a = uuidGenerate quietScanEnv (uniqueId dev))
                      [lampB, lampC] = Some 1
               then 0 else restartsSinceSeen ([lampB, lampC] ! 1) + 1)"
    using t by simp
  have c0: "\<exists>dev\<in>set [bulbA, bulbB].
              findIndex (\<lambda>a. UUID a = uuidGenerate quietScanEnv (uniqueId dev))
                [lampB, lampC] = Some 0"
    by (simp add: concrete_defs)
  have c1: "\<not> (\<exists>dev\<in>set [bulbA, bulbB].
              findIndex (\<lambda>a. UUID a = uuidGenerate quietScanEnv (uniqueId dev))
                [lampB, lampC] = Some 1)"
    by (simp add: concrete_defs)
  have r1: "restartsSinceSeen ([lampB, lampC] ! 1) = 0" by (simp add: lampC_def)
  show ?thesis
    by (simp only: t0 t1 c0 c1 r1 if_True if_False) simp
qed

text \<open>
  The claim as stated fails when the loop is left early: the scan finds two bulbs, the
  state query of the first, a new one, times out, and the cached accessory of the second
  ends the run with counter 1 although its device was discovered.
\<close>

theorem seen_but_not_reset_counterexample:
  "fst (startup flakyScanEnv keepAllConfig [lampB]) = None
   \<and> scan flakyScanEnv 0 = Inr [bulbA, bulbB]
   \<and> UUID lampB = uuidGenerate flakyScanEnv (uniqueId bulbB)
   \<and> map restartsSinceSeen (accessories (snd (startup flakyScanEnv keepAllConfig [lampB]))) = [1]"
  by (simp add: run_defs concrete_defs)

subsection \<open>Reconciling a converged list twice\<close>

text \<open>
  C8.  Let every discovered device have a matching accessory with the address the device
  reports.  Running the device loop, and then running it again on the resulting list
  with the same devices and fresh counters, registers nothing in the second run
  (\<open>newDevices\<close> is 0 and no \<open>registerPlatformAccessories\<close> call is made) and leaves
  every accessory exactly as the first run left it, \<open>cachedIPAddress\<close> and
  \<open>restartsSinceSeen\<close> included; the first run changes no address either.  If the list is
  restored through \<open>configureAccessory\<close> in between, as a restart does, every matched
  accessory still ends as the first run left it, and every unmatched one has its
  counter one higher.
\<close>

theorem reconcile_twice_on_converged:
  assumes "\<forall>dev\<in>set devs. \<exists>i.
             findIndex (\<lambda>a. UUID a = uuidGenerate e (uniqueId dev)) (accessories st) = Some i
             \<and> cachedIPAddress (accessories st ! i) = ipAddress dev"
  shows "newDevices (reconcile e cfg devs
            ((reconcile e cfg devs st)
               \<lparr>registeredDevices := 0, newDevices := 0, unseenDevices := 0\<rparr>)) = 0
    \<and> (\<forall>b. RegisterPlatformAccessories b \<notin>
           set (emitted (reconcile e cfg devs st)
                 (reconcile e cfg devs
                    ((reconcile e cfg devs st)
                       \<lparr>registeredDevices := 0, newDevices := 0, unseenDevices := 0\<rparr>))))
    \<and> accessories (reconcile e cfg devs
            ((reconcile e cfg devs st)
               \<lparr>registeredDevices := 0, newDevices := 0, unseenDevices := 0\<rparr>))
        = accessories (reconcile e cfg devs st)
    \<and> map cachedIPAddress (accessories (reconcile e cfg devs st))
        = map cachedIPAddress (accessories st)
    \<and> (\<forall>i<length (accessories st).
          accessories (reconcile e cfg devs
              (restoreCache (accessories (reconcile e cfg devs st)) initialPlatform)) ! i =
            (if \<exists>dev\<in>set devs.
                  findIndex (\<lambda>a. UUID a = uuidGenerate e (uniqueId dev)) (accessories st)
                    = Some i
             then accessories (reconcile e cfg devs st) ! i
             else (accessories (reconcile e cfg devs st) ! i)
                    \<lparr>restartsSinceSeen :=
                       restartsSinceSeen (accessories (reconcile e cfg devs st) ! i) + 1\<rparr>))"
proof -
  let ?P = "\<lambda>d a. UUID a = uuidGenerate e (uniqueId d)"
  let ?st1 = "reconcile e cfg devs st"
  let ?st1' = "?st1\<lparr>registeredDevices := 0, newDevices := 0, unseenDevices := 0\<rparr>"
  let ?st2 = "reconcile e cfg devs ?st1'"
  note one = reconcile_converged[OF assms, of cfg]
  have fi: "findIndex (?P d) (accessories ?st1) = findIndex (?P d) (accessories st)" for d
    using findIndex_UUID_cong[OF one(5)] by simp
  have ipn: "cachedIPAddress (accessories ?st1 ! i) = cachedIPAddress (accessories st ! i)"
    if "i < length (accessories st)" for i
    using one(3,6) that by (auto simp: list_eq_iff_nth_eq)
  have conv1: "\<forall>d\<in>set devs. \<exists>i. findIndex (?P d) (accessories ?st1') = Some i
                 \<and> cachedIPAddress (accessories ?st1' ! i) = ipAddress d"
  proof
    fix d assume "d \<in> set devs"
    with assms obtain i where
      i: "findIndex (?P d) (accessories st) = Some i"
         "cachedIPAddress (accessories st ! i) = ipAddress d"
      by auto
    have "i < length (accessories st)" using findIndex_Some[OF i(1)] by simp
    with i show "\<exists>i. findIndex (?P d) (accessories ?st1') = Some i
                 \<and> cachedIPAddress (accessories ?st1' ! i) = ipAddress d"
      by (auto simp: fi ipn)
  qed
  note two = reconcile_converged[OF conv1, of cfg]
  have n: "newDevices ?st2 = 0" using two(1) by simp
  have noreg: "\<forall>b. RegisterPlatformAccessories b \<notin> set (emitted ?st1 ?st2)"
    using two(2) by (simp add: emitted_def)
  have same: "accessories ?st2 = accessories ?st1"
  proof (rule nth_equalityI)
    show "length (accessories ?st2) = length (accessories ?st1)" using two(3) by simp
  next
    fix i assume "i < length (accessories ?st2)"
    then have i: "i < length (accessories st)" using two(3) one(3) by simp
    then have i': "i < length (accessories ?st1')" using one(3) by simp
    have "accessories ?st2 ! i =
            (if \<exists>d\<in>set devs. findIndex (?P d) (accessories st) = Some i
             then (accessories ?st1 ! i)\<lparr>restartsSinceSeen := 0\<rparr>
             else accessories ?st1 ! i)"
      using two(4) i' by (simp add: fi)
    moreover have "accessories ?st1 ! i =
            (if \<exists>d\<in>set devs. findIndex (?P d) (accessories st) = Some i
             then (accessories st ! i)\<lparr>restartsSinceSeen := 0\<rparr>
             else accessories st ! i)"
      using one(4) i by simp
    ultimately show "accessories ?st2 ! i = accessories ?st1 ! i" by simp
  qed
  let ?inc = "\<lambda>a. a\<lparr>restartsSinceSeen := restartsSinceSeen a + 1\<rparr>"
  let ?str = "restoreCache (accessories ?st1) initialPlatform"
  have accr: "accessories ?str = map ?inc (accessories ?st1)"
    by (simp add: restoreCache_accessories initialPlatform_def)
  have uur: "map UUID (accessories ?str) = map UUID (accessories st)"
    using one(5) by (simp add: accr comp_def)
  have fir: "findIndex (?P d) (accessories ?str) = findIndex (?P d) (accessories st)" for d
    by (rule findIndex_UUID_cong[OF uur])
  have nthr: "accessories ?str ! i = ?inc (accessories ?st1 ! i)"
    if "i < length (accessories st)" for i
    using that one(3) by (simp add: accr)
  have convr: "\<forall>d\<in>set devs. \<exists>i. findIndex (?P d) (accessories ?str) = Some i
                 \<and> cachedIPAddress (accessories ?str ! i) = ipAddress d"
  proof
    fix d assume "d \<in> set devs"
    with assms obtain i where
      i: "findIndex (?P d) (accessories st) = Some i"
         "cachedIPAddress (accessories st ! i) = ipAddress d"
      by auto
    have "i < length (accessories st)" using findIndex_Some[OF i(1)] by simp
    with i show "\<exists>i. findIndex (?P d) (accessories ?str) = Some i
                 \<and> cachedIPAddress (accessories ?str ! i) = ipAddress d"
      by (auto simp: fir nthr ipn)
  qed
  note three = reconcile_converged(4)[OF convr, of cfg]
  have restart: "accessories (reconcile e cfg devs ?str) ! i =
            (if \<exists>d\<in>set devs. findIndex (?P d) (accessories st) = Some i
             then accessories ?st1 ! i
             else ?inc (accessories ?st1 ! i))"
    if i: "i < length (accessories st)" for i
  proof -
    have "i < length (accessories ?str)" using i one(3) by (simp add: accr)
    with three have "accessories (reconcile e cfg devs ?str) ! i =
            (if \<exists>d\<in>set devs. findIndex (?P d) (accessories st) = Some i
             then (?inc (accessories ?st1 ! i))\<lparr>restartsSinceSeen := 0\<rparr>
             else ?inc (accessories ?st1 ! i))"
      using i by (simp add: fir nthr)
    moreover have "accessories ?st1 ! i =
            (if \<exists>d\<in>set devs. findIndex (?P d) (accessories st) = Some i
             then (accessories st ! i)\<lparr>restartsSinceSeen := 0\<rparr>
             else accessories st ! i)"
      using one(4) i by simp
    ultimately show ?thesis by simp
  qed
  show ?thesis using n noreg same one(6) restart by simp
qed

theorem reconcile_twice_on_converged_witness:
  "newDevices (reconcile quietEnv keepAllConfig [homeBulbA]
      ((reconcile quietEnv keepAllConfig [homeBulbA] (holding [lamp, lampC]))
         \<lparr>registeredDevices := 0, newDevices := 0, unseenDevices := 0\<rparr>)) = 0
   \<and> accessories (reconcile quietEnv keepAllConfig [homeBulbA]
      ((reconcile quietEnv keepAllConfig [homeBulbA] (holding [lamp, lampC]))
         \<lparr>registeredDevices := 0, newDevices := 0, unseenDevices := 0\<rparr>))
     = accessories (reconcile quietEnv keepAllConfig [homeBulbA] (holding [lamp, lampC]))
   \<and> map cachedIPAddress
        (accessories (reconcile quietEnv keepAllConfig [homeBulbA] (holding [lamp, lampC])))
     = [''10.0.0.5'', ''10.0.0.6'']"
proof -
  have h: "\<forall>dev\<in>set [homeBulbA]. \<exists>i.
             findIndex (\<lambda>a. UUID a = uuidGenerate quietEnv (uniqueId dev))
               (accessories (holding [lamp, lampC])) = Some i
             \<and> cachedIPAddress (accessories (holding [lamp, lampC]) ! i) = ipAddress dev"
    by (simp add: holding_def lamp_def lampC_def homeBulbA_def quietEnv_def)
  have c: "map cachedIPAddress (accessories (holding [lamp, lampC]))
             = [''10.0.0.5'', ''10.0.0.6'']"
    by (simp add: holding_def lamp_def lampC_def)
  show ?thesis
    using reconcile_twice_on_converged[OF h, of keepAllConfig] c by simp
qed

subsection \<open>A configuration without a pruning section\<close>

text \<open>
  C9.  With no \<open>pruning\<close> section in the configuration and one cached accessory whose
  name does not contain \<open>delete\<close>, the sweep reads \<open>this.config.pruning\<close> of undefined:
  \<open>discoverDevices\<close> ends with a \<open>TypeError\<close> that nothing catches.
\<close>

theorem startup_without_pruning_section:
  "fst (startup quietEnv bareConfig [lamp]) = Some TypeError"
  by (simp add: startup_def launch_def discoverDevices_def beforeScan_def restoreCache_def
      configureAccessory_def initialPlatform_def scanPhase_def scanWhile.simps quietEnv_def
      emit_def reconcile_def pruneSweep_def pruneStep_def markedForDeletion_def
      toLowerCase_def toLowerChar_def lamp_def bareConfig_def)

subsection \<open>Unregistering leaves the list alone\<close>

text \<open>
  C10.  No step removes an accessory from \<open>this.accessories\<close>: the device loop never
  shortens the list and the sweep never changes it.  A cached accessory that is matched
  by a discovered device but refused by the allow list is unregistered in the loop and
  stays in the list, at its place, with counter 0 and the discovered address.  The sweep
  therefore meets it again, and unregisters it a second time when its name contains
  \<open>delete\<close> or \<open>pruneAllAccessoriesNextRestart\<close> is true.
\<close>

theorem refused_accessory_stays_listed:
  assumes "findIndex (\<lambda>a. UUID a = uuidGenerate e (uniqueId dev)) (accessories st) = Some i"
    and "\<not> isAllowed cfg (uniqueId (device (accessories st ! i)))"
    and "pruning cfg = Some p"
    and "markedForDeletion (accessories st ! i) \<or> pruneAllAccessoriesNextRestart p"
  shows "accessories (reconcile e cfg [dev] st) =
           (accessories st)[i := (accessories st ! i)
              \<lparr>restartsSinceSeen := 0, cachedIPAddress := ipAddress dev\<rparr>]
    \<and> UnregisterPlatformAccessories
          ((accessories st ! i)\<lparr>restartsSinceSeen := 0, cachedIPAddress := ipAddress dev\<rparr>)
        \<in> set (emitted st (reconcile e cfg [dev] st))
    \<and> fst (pruneSweep cfg (reconcile e cfg [dev] st)) = None
    \<and> UnregisterPlatformAccessories
          ((accessories st ! i)\<lparr>restartsSinceSeen := 0, cachedIPAddress := ipAddress dev\<rparr>)
        \<in> set (emitted (reconcile e cfg [dev] st)
                 (snd (pruneSweep cfg (reconcile e cfg [dev] st))))
    \<and> accessories (snd (pruneSweep cfg (reconcile e cfg [dev] st))) =
           (accessories st)[i := (accessories st ! i)
              \<lparr>restartsSinceSeen := 0, cachedIPAddress := ipAddress dev\<rparr>]
    \<and> length (accessories st) \<le> length (accessories (reconcile e cfg devs st))
    \<and> accessories (snd (pruneSweep cfg' st')) = accessories st'"
proof -
  let ?a = "accessories st ! i"
  let ?a' = "?a\<lparr>restartsSinceSeen := 0, cachedIPAddress := ipAddress dev\<rparr>"
  let ?st1 = "reconcile e cfg [dev] st"
  have i: "i < length (accessories st)" using findIndex_Some[OF assms(1)] by simp
  have r: "?st1 = updateExisting cfg i dev st"
    by (simp add: reconcile_def processDevice_existing[OF assms(1)])
  have acc: "accessories ?st1 = (accessories st)[i := ?a']"
    by (simp add: r updateExisting_accessories markSeen_eq)
  have em: "emitted st ?st1 = driftLog dev ?a
       @ isAllowedLog cfg (uniqueId (device ?a))
       @ [LogWarn (WillBePruned (displayName ?a) (uniqueId (device ?a))),
          UnregisterPlatformAccessories ?a']"
    unfolding r
    by (rule emitted_append) (simp add: updateExisting_effects assms(2) Let_def markSeen_eq)
  have first: "UnregisterPlatformAccessories ?a' \<in> set (emitted st ?st1)"
    by (simp add: em)
  have mem: "?a' \<in> set (accessories ?st1)"
    using i by (simp add: acc set_update_memI)
  have marked: "markedForDeletion ?a' = markedForDeletion ?a"
    by (simp add: markedForDeletion_def)
  have second: "UnregisterPlatformAccessories ?a'
        \<in> set (emitted ?st1 (snd (pruneSweep cfg ?st1)))"
    using pruneSweep_present(3)[OF assms(3), of ?a' ?st1] mem assms(4) marked by auto
  have kept: "accessories (snd (pruneSweep cfg ?st1)) = (accessories st)[i := ?a']"
    using pruneSweep_present(2)[OF assms(3), of ?st1] acc by simp
  have any: "accessories (snd (pruneSweep cfg' st')) = accessories st'"
    by (simp add: pruneSweep_def forAccessories_accessories)
  show ?thesis
    using acc first pruneSweep_present(1)[OF assms(3), of ?st1] second kept
      reconcile_length[of st e cfg devs] any
    by simp
qed

theorem refused_accessory_stays_listed_witness:
  "UnregisterPlatformAccessories (lampToDelete\<lparr>restartsSinceSeen := 0,
                                     cachedIPAddress := ''10.0.0.9''\<rparr>)
     \<in> set (emitted (holding [lampToDelete])
              (reconcile quietEnv blacklistA1Config [movedBulbA] (holding [lampToDelete])))
   \<and> UnregisterPlatformAccessories (lampToDelete\<lparr>restartsSinceSeen := 0,
                                     cachedIPAddress := ''10.0.0.9''\<rparr>)
     \<in> set (emitted
              (reconcile quietEnv blacklistA1Config [movedBulbA] (holding [lampToDelete]))
              (snd (pruneSweep blacklistA1Config
                 (reconcile quietEnv blacklistA1Config [movedBulbA] (holding [lampToDelete])))))
   \<and> accessories (snd (pruneSweep blacklistA1Config
                 (reconcile quietEnv blacklistA1Config [movedBulbA] (holding [lampToDelete]))))
       = [lampToDelete\<lparr>restartsSinceSeen := 0, cachedIPAddress := ''10.0.0.9''\<rparr>]"
proof -
  have h1: "findIndex (\<lambda>a. UUID a = uuidGenerate quietEnv (uniqueId movedBulbA))
              (accessories (holding [lampToDelete])) = Some 0"
    by (simp add: holding_def lampToDelete_def lamp_def movedBulbA_def quietEnv_def)
  have h2: "\<not> isAllowed blacklistA1Config
                (uniqueId (device (accessories (holding [lampToDelete]) ! 0)))"
    by (simp add: holding_def lampToDelete_def lamp_def blacklistA1Config_def
        allowListConfig_def isAllowed_def isAllowedTry_def)
  have h3: "pruning blacklistA1Config = Some keepAll" by (simp add: blacklistA1Config_def)
  have h4: "markedForDeletion (accessories (holding [lampToDelete]) ! 0)
              \<or> pruneAllAccessoriesNextRestart keepAll"
    by (simp add: holding_def)
  have a: "accessories (holding [lampToDelete]) = [lampToDelete]"
    and ip: "ipAddress movedBulbA = ''10.0.0.9''"
    by (simp_all add: holding_def movedBulbA_def)
  show ?thesis
    using refused_accessory_stays_listed[OF h1 h2 h3 h4] by (simp add: a ip)
qed

end
